theory Spec2Isabelle
  imports Complex_Main "HOL-Library.Sublist" "HOL-Library.Multiset"
begin

unbundle bit_operations_syntax

section \<open>JavaScript values and strings\<close>

text \<open>
  Values read from JSON files and REST responses.  A string is a list of code units; an
  object is its list of own enumerable entries in enumeration order (keys pairwise
  distinct, array indices first); a Map is an association list in insertion order.
\<close>

datatype json =
    JNull
  | JUndefined
  | JBool bool
  | JNum real
  | JStr string
  | JArr "json list"
  | JObj "(string \<times> json) list"

type_synonym obj = "(string \<times> json) list"

definition typeof :: "json \<Rightarrow> string" where
  "typeof v =
     (case v of
        JNull \<Rightarrow> ''object''
      | JUndefined \<Rightarrow> ''undefined''
      | JBool _ \<Rightarrow> ''boolean''
      | JNum _ \<Rightarrow> ''number''
      | JStr _ \<Rightarrow> ''string''
      | JArr _ \<Rightarrow> ''object''
      | JObj _ \<Rightarrow> ''object'')"

definition isArray :: "json \<Rightarrow> bool" where
  "isArray v = (case v of JArr _ \<Rightarrow> True | _ \<Rightarrow> False)"

text \<open>\<open>Object.keys(value).length\<close>: an array has one key per element, a string one per
  code unit, every other primitive none.\<close>

definition keyCount :: "json \<Rightarrow> nat" where
  "keyCount v =
     (case v of
        JArr xs \<Rightarrow> length xs
      | JObj kvs \<Rightarrow> length kvs
      | JStr s \<Rightarrow> length s
      | _ \<Rightarrow> 0)"

definition startsWith :: "string \<Rightarrow> string \<Rightarrow> bool" where
  "startsWith s p = prefix p s"

definition includesStr :: "string \<Rightarrow> string \<Rightarrow> bool" where
  "includesStr s p = sublist p s"

definition objKeys :: "(string \<times> 'v) list \<Rightarrow> string list" where
  "objKeys ob = map fst ob"

text \<open>
  Own property keys are enumerated with the array indices first, in ascending numeric
  order, and the other keys after them in the order they were created.  An array index
  is a canonical decimal string below \<open>2^32 - 1\<close>.
\<close>

definition indexValue :: "string \<Rightarrow> nat" where
  "indexValue s = foldl (\<lambda>n c. 10 * n + (of_char c - 48)) 0 s"

definition isArrayIndex :: "string \<Rightarrow> bool" where
  "isArrayIndex s =
     (s \<noteq> [] \<and> list_all (\<lambda>c. c \<in> set ''0123456789'') s
      \<and> (s = ''0'' \<or> hd s \<noteq> CHR ''0'') \<and> indexValue s < 4294967295)"

text \<open>A new property takes its place in the enumeration order.\<close>

fun objInsert :: "(string \<times> 'v) list \<Rightarrow> string \<Rightarrow> 'v \<Rightarrow> (string \<times> 'v) list" where
  "objInsert [] k v = [(k, v)]"
| "objInsert ((k', v') # rest) k v =
     (if isArrayIndex k \<and> (\<not> isArrayIndex k' \<or> indexValue k < indexValue k')
      then (k, v) # (k', v') # rest
      else (k', v') # objInsert rest k v)"

text \<open>\<open>target[key] = value\<close> on an object made by an object literal: an existing
  property keeps its place and takes the value, a new one is inserted.  The key
  \<open>__proto__\<close> is the accessor inherited from \<open>Object.prototype\<close>: the assignment runs its
  setter and never makes an own property.\<close>

definition objSet :: "(string \<times> 'v) list \<Rightarrow> string \<Rightarrow> 'v \<Rightarrow> (string \<times> 'v) list" where
  "objSet m k v =
     (if k = ''__proto__'' then m
      else if k \<in> set (map fst m)
      then map (\<lambda>(k', v'). if k' = k then (k', v) else (k', v')) m
      else objInsert m k v)"

text \<open>\<open>map.set(key, value)\<close> on a Map: an existing key keeps its place, a new one is added
  last, whatever the key is.\<close>

fun mapSet :: "(string \<times> 'v) list \<Rightarrow> string \<Rightarrow> 'v \<Rightarrow> (string \<times> 'v) list" where
  "mapSet [] k v = [(k, v)]"
| "mapSet ((k', v') # rest) k v =
     (if k' = k then (k, v) # rest else (k', v') # mapSet rest k v)"

text \<open>\<open>Object.assign(target, source)\<close>: one assignment per own property of the source.\<close>

definition objAssign :: "(string \<times> 'v) list \<Rightarrow> (string \<times> 'v) list \<Rightarrow> (string \<times> 'v) list" where
  "objAssign target source = foldl (\<lambda>t (k, v). objSet t k v) target source"

text \<open>\<open>str.replace(pattern, '')\<close> with a string pattern: the first occurrence only.\<close>

fun replaceFirst :: "string \<Rightarrow> string \<Rightarrow> string \<Rightarrow> string" where
  "replaceFirst pat rep [] = (if pat = [] then rep else [])"
| "replaceFirst pat rep (x # xs) =
     (if prefix pat (x # xs) then rep @ drop (length pat) (x # xs)
      else x # replaceFirst pat rep xs)"

section \<open>Plugin prefix classifier (wp-export)\<close>

text \<open>\<open>isEmpty\<close>, test by test as the source runs them.\<close>

definition isEmpty :: "json \<Rightarrow> bool" where
  "isEmpty v =
     (if v = JNull \<or> v = JUndefined then True
      else if v = JStr [] then True
      else if v = JNum 0 then False
      else if isArray v \<and> keyCount v = 0 then True
      else if typeof v = ''object'' \<and> keyCount v = 0 then True
      else False)"

definition hasMeaningfulContent :: "obj \<Rightarrow> bool" where
  "hasMeaningfulContent ob = list_ex (\<lambda>v. \<not> isEmpty v) (map snd ob)"

record plugin =
  plugin_slug :: string
  plugin_name :: string
  plugin_prefixes :: "string list"
  plugin_autoDetected :: bool

type_synonym groups = "(string \<times> (plugin \<times> obj)) list"

definition skipPrefixes :: "string list" where
  "skipPrefixes = [''_edit_'', ''_wp_'', ''_oembed_'', ''_menu_item_'', ''_customize_'']"

definition skipKeys :: "string list" where
  "skipKeys = [''_thumbnail_id'', ''_encloseme'', ''_pingme'']"

definition isSkipped :: "string \<Rightarrow> bool" where
  "isSkipped key = (key \<in> set skipKeys \<or> list_ex (\<lambda>p. startsWith key p) skipPrefixes)"

text \<open>\<open>Math.max(...a.prefixes.map(p => p.length))\<close>: \<open>None\<close> is the \<open>-Infinity\<close> of an
  empty prefix list.\<close>

definition maxPrefixLength :: "plugin \<Rightarrow> nat option" where
  "maxPrefixLength p =
     (case plugin_prefixes p of
        [] \<Rightarrow> None
      | x # xs \<Rightarrow> Some (foldl max (length x) (map length xs)))"

text \<open>The comparator \<open>maxB - maxA\<close>, as the sign the sort reads (\<open>NaN\<close>, from two empty
  prefix lists, counts as \<open>0\<close>).\<close>

definition comparePlugins :: "plugin \<Rightarrow> plugin \<Rightarrow> int" where
  "comparePlugins a b =
     (case (maxPrefixLength a, maxPrefixLength b) of
        (None, None) \<Rightarrow> 0
      | (None, Some mb) \<Rightarrow> 1
      | (Some ma, None) \<Rightarrow> - 1
      | (Some ma, Some mb) \<Rightarrow> int mb - int ma)"

text \<open>The rank the comparator sorts by: \<open>0\<close> without prefixes, else one more than the length
  of the longest prefix.\<close>

definition prefixRank :: "plugin \<Rightarrow> nat" where
  "prefixRank p = (case maxPrefixLength p of None \<Rightarrow> 0 | Some n \<Rightarrow> Suc n)"

text \<open>\<open>Array.prototype.sort\<close> is stable; with a comparator that orders by a key its
  result is the stable insertion sort: going through the array from the right, each
  descriptor is put in front of the first one that does not have to precede it, so
  descriptors that compare equal keep their input order.\<close>

fun insortPlugin :: "plugin \<Rightarrow> plugin list \<Rightarrow> plugin list" where
  "insortPlugin x [] = [x]"
| "insortPlugin x (y # ys) =
     (if comparePlugins x y \<le> 0 then x # y # ys else y # insortPlugin x ys)"

definition sortPlugins :: "plugin list \<Rightarrow> plugin list" where
  "sortPlugins ps = foldr insortPlugin ps []"

definition prefixPatterns :: "string \<Rightarrow> string list" where
  "prefixPatterns pre = [pre @ ''_'', pre @ ''-'', ''_'' @ pre @ ''_'', ''_'' @ pre]"

definition matchesPrefix :: "string \<Rightarrow> string \<Rightarrow> bool" where
  "matchesPrefix key pre =
     (list_ex (\<lambda>p. startsWith key p) (prefixPatterns pre) \<or> key = pre)"

text \<open>\<open>if (!grouped.has(slug)) grouped.set(slug, {plugin, meta: {}});
  grouped.get(slug).meta[key] = value\<close>.\<close>

definition addToGroup :: "groups \<Rightarrow> plugin \<Rightarrow> string \<Rightarrow> json \<Rightarrow> groups" where
  "addToGroup g p key v =
     (let g' = (if plugin_slug p \<in> set (map fst g) then g else g @ [(plugin_slug p, (p, []))])
      in map (\<lambda>(s, (q, m)). if s = plugin_slug p then (s, (q, objSet m key v)) else (s, (q, m))) g')"

text \<open>The loop over the sorted descriptors for one key: the inner loop stops at the first
  matching prefix, the outer one as soon as the key is assigned.\<close>

fun matchPlugins :: "string \<Rightarrow> json \<Rightarrow> plugin list \<Rightarrow> groups \<times> string set \<Rightarrow> groups \<times> string set" where
  "matchPlugins key v [] st = st"
| "matchPlugins key v (p # ps) (g, assigned) =
     (let (g', assigned') =
            (if list_ex (matchesPrefix key) (plugin_prefixes p)
             then (addToGroup g p key v, insert key assigned)
             else (g, assigned))
      in if key \<in> assigned' then (g', assigned') else matchPlugins key v ps (g', assigned'))"

fun knownLoop :: "obj \<Rightarrow> plugin list \<Rightarrow> groups \<times> string set \<Rightarrow> groups \<times> string set" where
  "knownLoop [] sps st = st"
| "knownLoop ((key, v) # rest) sps st =
     knownLoop rest sps
       (if isEmpty v then st
        else if key \<in> set skipKeys then st
        else if list_ex (\<lambda>p. startsWith key p) skipPrefixes then st
        else matchPlugins key v sps st)"

definition isAlnum :: "char \<Rightarrow> bool" where
  "isAlnum c = (c \<in> set ''abcdefghijklmnopqrstuvwxyzABCDEFGHIJKLMNOPQRSTUVWXYZ0123456789'')"

text \<open>\<open>key.match(/^(_[a-z0-9]+)_/i)\<close> for a key that starts with an underscore,
  \<open>key.match(/^([a-z0-9]+)_/i)\<close> otherwise; the result is the first capture.\<close>

definition extractPrefix :: "string \<Rightarrow> string option" where
  "extractPrefix key =
     (if startsWith key ''_''
      then (let run = takeWhile isAlnum (tl key); rest = dropWhile isAlnum (tl key)
            in if run \<noteq> [] \<and> startsWith rest ''_'' then Some (CHR ''_'' # run) else None)
      else (let run = takeWhile isAlnum key; rest = dropWhile isAlnum key
            in if run \<noteq> [] \<and> startsWith rest ''_'' then Some run else None))"

definition unknownSet :: "(string \<times> obj) list \<Rightarrow> string \<Rightarrow> string \<Rightarrow> json \<Rightarrow> (string \<times> obj) list" where
  "unknownSet ug pre key v =
     (let ug' = (if pre \<in> set (map fst ug) then ug else ug @ [(pre, [])])
      in map (\<lambda>(q, m). if q = pre then (q, objSet m key v) else (q, m)) ug')"

fun unknownLoop :: "obj \<Rightarrow> (string \<times> obj) list \<times> string set \<Rightarrow> (string \<times> obj) list \<times> string set" where
  "unknownLoop [] st = st"
| "unknownLoop ((key, v) # rest) (ug, assigned) =
     unknownLoop rest
       (if key \<in> assigned \<or> isEmpty v then (ug, assigned)
        else if key \<in> set skipKeys then (ug, assigned)
        else if list_ex (\<lambda>p. startsWith key p) skipPrefixes then (ug, assigned)
        else (case extractPrefix key of
                Some pre \<Rightarrow>
                  if length pre \<ge> 2 then (unknownSet ug pre key v, insert key assigned)
                  else (ug, assigned)
              | None \<Rightarrow> (ug, assigned)))"

definition toLowerChar :: "char \<Rightarrow> char" where
  "toLowerChar c =
     (if c \<in> set ''ABCDEFGHIJKLMNOPQRSTUVWXYZ'' then char_of (of_char c + (32::nat)) else c)"

definition toLowerCase :: "string \<Rightarrow> string" where
  "toLowerCase s = map toLowerChar s"

text \<open>\<open>prefix.replace(/^_/, '').toLowerCase().replace(/_/g, '-')\<close>.\<close>

definition autoSlug :: "string \<Rightarrow> string" where
  "autoSlug pre =
     map (\<lambda>c. if c = CHR ''_'' then CHR ''-'' else c)
       (toLowerCase (if startsWith pre ''_'' then tl pre else pre))"

fun mergeUnknown :: "(string \<times> obj) list \<Rightarrow> groups \<Rightarrow> groups" where
  "mergeUnknown [] g = g"
| "mergeUnknown ((pre, data) # rest) g =
     mergeUnknown rest
       (if length (objKeys data) \<ge> 1 \<and> hasMeaningfulContent data
        then (let s = autoSlug pre
              in if s \<notin> set (map fst g)
                 then g @ [(s, (\<lparr>plugin_slug = s, plugin_name = s, plugin_prefixes = [],
                                 plugin_autoDetected = True\<rparr>, data))]
                 else map (\<lambda>(t, (q, m)). if t = s then (t, (q, objAssign m data)) else (t, (q, m))) g)
        else g)"

fun remainingLoop :: "obj \<Rightarrow> string set \<Rightarrow> obj \<Rightarrow> obj" where
  "remainingLoop [] assigned rem = rem"
| "remainingLoop ((key, v) # rest) assigned rem =
     remainingLoop rest assigned
       (if key \<notin> assigned \<and> \<not> isEmpty v
        then (if key \<notin> set skipKeys \<and> \<not> list_ex (\<lambda>p. startsWith key p) skipPrefixes
              then (if includesStr key ''_'' \<and> \<not> startsWith key ''_'' then objSet rem key v else rem)
              else rem)
        else rem)"

text \<open>\<open>groupMetaByPlugin(meta, plugins)\<close>; \<open>meta\<close> is given by \<open>Object.entries(meta)\<close>,
  the result is \<open>grouped\<close> and \<open>remaining\<close> (\<open>None\<close> for \<open>null\<close>).\<close>

definition groupMetaByPlugin :: "obj \<Rightarrow> plugin list \<Rightarrow> groups \<times> obj option" where
  "groupMetaByPlugin meta plugins =
     (let sps = sortPlugins plugins;
          (g1, a1) = knownLoop meta sps ([], {});
          (ug, a2) = unknownLoop meta ([], a1);
          g2 = mergeUnknown ug g1;
          rem = remainingLoop meta a2 []
      in (g2, if hasMeaningfulContent rem then Some rem else None))"

text \<open>Where a key of the bag ended up.\<close>

definition groupsOf :: "groups \<Rightarrow> string \<Rightarrow> string list" where
  "groupsOf g key = map fst (filter (\<lambda>(s, (q, m)). key \<in> set (objKeys m)) g)"

definition inRemaining :: "obj option \<Rightarrow> string \<Rightarrow> bool" where
  "inRemaining r key = (case r of None \<Rightarrow> False | Some ob \<Rightarrow> key \<in> set (objKeys ob))"

text \<open>All entries of all groups, in order; the entries an auto-detection table holds; and
  the entries of the bag that pass the emptiness test and the reserved-key tests.\<close>

definition groupEntries :: "groups \<Rightarrow> (string \<times> json) list" where
  "groupEntries g = concat (map (snd \<circ> snd) g)"

definition unknownEntries :: "(string \<times> obj) list \<Rightarrow> (string \<times> json) list" where
  "unknownEntries ug = concat (map snd ug)"

definition classifiable :: "string \<times> json \<Rightarrow> bool" where
  "classifiable e = (\<not> isEmpty (snd e) \<and> \<not> isSkipped (fst e))"

definition looksLikePluginMeta :: "string \<Rightarrow> bool" where
  "looksLikePluginMeta key = (includesStr key ''_'' \<and> \<not> startsWith key ''_'')"


text \<open>Sample descriptors and a sample bag.\<close>

definition seoPlugin :: plugin where
  "seoPlugin = \<lparr>plugin_slug = ''seo'', plugin_name = ''SEO'', plugin_prefixes = [''seo''],
                 plugin_autoDetected = False\<rparr>"

definition seoProPlugin :: plugin where
  "seoProPlugin = \<lparr>plugin_slug = ''seo-pro'', plugin_name = ''SEO Pro'',
                    plugin_prefixes = [''seo_pro''], plugin_autoDetected = False\<rparr>"

definition sampleMeta :: obj where
  "sampleMeta =
     [(''_edit_lock'', JStr ''1''), (''seo_pro_title'', JStr ''P''), (''seo_title'', JStr ''S''),
      (''acme_color'', JStr ''red''), (''acme_size'', JStr []), (''x_note'', JStr ''n''),
      (''plain'', JStr ''p'')]"

section \<open>Media handler: rewriting content through the regular-expression engine\<close>

definition backslash :: char where
  "backslash = CHR 0x5C"

definition dollar :: char where
  "dollar = CHR 0x24"

definition backtick :: char where
  "backtick = CHR 0x60"

definition apostrophe :: char where
  "apostrophe = CHR 0x27"

text \<open>The character class of \<open>/[.*+?^${}()|[\]\\]/g\<close>, and the escaping
  \<open>s.replace(/[.*+?^${}()|[\]\\]/g, '\\$&')\<close>: a backslash preceding each such character.\<close>

definition escapedChars :: "char list" where
  "escapedChars = ''.*+?^${}()|[]'' @ [backslash]"

definition escapeRegExp :: "string \<Rightarrow> string" where
  "escapeRegExp s = concat (map (\<lambda>c. if c \<in> set escapedChars then [backslash, c] else [c]) s)"

text \<open>
  The fragment of the ECMAScript pattern language that \<open>new RegExp(source, 'g')\<close> is
  given here: a sequence of single characters, each optionally followed by the
  quantifier \<open>?\<close>.  A character stands for itself unless it is a SyntaxCharacter
  (\<open>^ $ \ . * + ? ( ) [ ] { } |\<close>); a backslash preceding a SyntaxCharacter or preceding \<open>/\<close> is an
  identity escape.  \<open>parsePattern\<close> is \<open>None\<close> on every source outside the fragment.
\<close>

datatype atom = Chr char | OptChr char

definition syntaxCharacters :: "char list" where
  "syntaxCharacters = ''^$.*+?()[]{}|'' @ [backslash]"

fun parsePattern :: "string \<Rightarrow> atom list option" where
  "parsePattern [] = Some []"
| "parsePattern [c] = (if c \<in> set syntaxCharacters then None else Some [Chr c])"
| "parsePattern (c # d # rest) =
     (if c = backslash then
        (if d \<in> set syntaxCharacters \<or> d = CHR ''/'' then
           (case rest of
              [] \<Rightarrow> Some [Chr d]
            | q # rest' \<Rightarrow>
                if q = CHR ''?'' then map_option ((#) (OptChr d)) (parsePattern rest')
                else map_option ((#) (Chr d)) (parsePattern rest))
         else None)
      else if c \<in> set syntaxCharacters then None
      else if d = CHR ''?'' then map_option ((#) (OptChr c)) (parsePattern rest)
      else map_option ((#) (Chr c)) (parsePattern (d # rest)))"

text \<open>The backtracking matcher at one position: the number of code units the first
  successful alternative consumes (\<open>?\<close> is greedy).\<close>

fun matchAt :: "atom list \<Rightarrow> string \<Rightarrow> nat option" where
  "matchAt [] s = Some 0"
| "matchAt (Chr c # as) [] = None"
| "matchAt (Chr c # as) (x # xs) = (if x = c then map_option Suc (matchAt as xs) else None)"
| "matchAt (OptChr c # as) [] = matchAt as []"
| "matchAt (OptChr c # as) (x # xs) =
     (if x = c then
        (case matchAt as xs of
           Some n \<Rightarrow> Some (Suc n)
         | None \<Rightarrow> matchAt as (x # xs))
      else matchAt as (x # xs))"

text \<open>GetSubstitution for a pattern without capture groups: \<open>$$\<close>, \<open>$&\<close>, \<open>$`\<close> and \<open>$'\<close>
  are replaced, every other \<open>$\<close> stands for itself.\<close>

fun expandTemplate :: "string \<Rightarrow> string \<Rightarrow> string \<Rightarrow> string \<Rightarrow> string" where
  "expandTemplate [] matched preceding following = []"
| "expandTemplate [c] matched preceding following = [c]"
| "expandTemplate (c # d # r) matched preceding following =
     (if c = dollar then
        (if d = dollar then dollar # expandTemplate r matched preceding following
         else if d = CHR ''&'' then matched @ expandTemplate r matched preceding following
         else if d = backtick then preceding @ expandTemplate r matched preceding following
         else if d = apostrophe then following @ expandTemplate r matched preceding following
         else c # expandTemplate (d # r) matched preceding following)
      else c # expandTemplate (d # r) matched preceding following)"

text \<open>
  \<open>str.replace(regex, template)\<close> with the global flag, scanning from the left:
  \<open>preceding\<close> is the part of the string already passed, \<open>skip\<close> the number of code units of
  the current match still to pass.  An empty match is followed by one copied code unit.
\<close>

fun replaceFrom :: "atom list \<Rightarrow> string \<Rightarrow> string \<Rightarrow> string \<Rightarrow> nat \<Rightarrow> string" where
  "replaceFrom re t preceding [] skip =
     (if skip = 0 then
        (case matchAt re [] of
           Some n \<Rightarrow> expandTemplate t [] preceding []
         | None \<Rightarrow> [])
      else [])"
| "replaceFrom re t preceding (x # xs) skip =
     (if skip > 0 then replaceFrom re t (preceding @ [x]) xs (skip - 1)
      else
        (case matchAt re (x # xs) of
           None \<Rightarrow> x # replaceFrom re t (preceding @ [x]) xs 0
         | Some n \<Rightarrow>
             expandTemplate t (take n (x # xs)) preceding (drop n (x # xs)) @
               (if n = 0 then x # replaceFrom re t (preceding @ [x]) xs 0
                else replaceFrom re t (preceding @ [x]) xs (n - 1))))"

definition jsReplaceAll :: "string \<Rightarrow> string \<Rightarrow> string \<Rightarrow> string option" where
  "jsReplaceAll source t s = map_option (\<lambda>re. replaceFrom re t [] s 0) (parsePattern source)"

text \<open>\<open>replaceMediaUrls(content, mapping)\<close>: the mapping is a Map from URL to filename.\<close>

fun replaceMediaUrls :: "string \<Rightarrow> (string \<times> string) list \<Rightarrow> string option" where
  "replaceMediaUrls content [] = Some content"
| "replaceMediaUrls content ((url, filename) # rest) =
     (case jsReplaceAll (escapeRegExp url) (''./media/'' @ filename) content of
        None \<Rightarrow> None
      | Some result \<Rightarrow> replaceMediaUrls result rest)"

text \<open>\<open>restoreMediaUrls(content, mapping)\<close>: the mapping is a Map from filename to URL; the
  pattern source is \<open>\.?\/media\/\<close> followed by the escaped filename.\<close>

definition restorePattern :: "string \<Rightarrow> string" where
  "restorePattern filename =
     [backslash, CHR ''.'', CHR ''?'', backslash, CHR ''/''] @ ''media'' @ [backslash, CHR ''/'']
       @ escapeRegExp filename"

fun restoreMediaUrls :: "string \<Rightarrow> (string \<times> string) list \<Rightarrow> string option" where
  "restoreMediaUrls content [] = Some content"
| "restoreMediaUrls content ((filename, url) # rest) =
     (case jsReplaceAll (restorePattern filename) url content of
        None \<Rightarrow> None
      | Some result \<Rightarrow> restoreMediaUrls result rest)"

text \<open>The inverse of a Map from URL to filename, entry by entry.\<close>

definition inverseMapping :: "(string \<times> string) list \<Rightarrow> (string \<times> string) list" where
  "inverseMapping m = map (\<lambda>(url, filename). (filename, url)) m"

section \<open>Media handler: filenames\<close>

subsection \<open>MD5 (\<open>createHash('md5').update(url).digest('hex')\<close>)\<close>

text \<open>
  The digest of the standard library, after RFC 1321.  A 32-bit word is a natural number
  below \<open>2^32\<close>, with the wrap-around written out; the input string is the list of its
  bytes.
\<close>

definition md5_shifts :: "nat list" where
  "md5_shifts =
    [7, 12, 17, 22, 7, 12, 17, 22, 7, 12, 17, 22, 7, 12, 17, 22,
     5, 9, 14, 20, 5, 9, 14, 20, 5, 9, 14, 20, 5, 9, 14, 20,
     4, 11, 16, 23, 4, 11, 16, 23, 4, 11, 16, 23, 4, 11, 16, 23,
     6, 10, 15, 21, 6, 10, 15, 21, 6, 10, 15, 21, 6, 10, 15, 21]"

definition md5_K :: "nat list" where
  "md5_K =
    [0xd76aa478, 0xe8c7b756, 0x242070db, 0xc1bdceee, 0xf57c0faf, 0x4787c62a, 0xa8304613, 0xfd469501,
     0x698098d8, 0x8b44f7af, 0xffff5bb1, 0x895cd7be, 0x6b901122, 0xfd987193, 0xa679438e, 0x49b40821,
     0xf61e2562, 0xc040b340, 0x265e5a51, 0xe9b6c7aa, 0xd62f105d, 0x02441453, 0xd8a1e681, 0xe7d3fbc8,
     0x21e1cde6, 0xc33707d6, 0xf4d50d87, 0x455a14ed, 0xa9e3e905, 0xfcefa3f8, 0x676f02d9, 0x8d2a4c8a,
     0xfffa3942, 0x8771f681, 0x6d9d6122, 0xfde5380c, 0xa4beea44, 0x4bdecfa9, 0xf6bb4b60, 0xbebfbc70,
     0x289b7ec6, 0xeaa127fa, 0xd4ef3085, 0x04881d05, 0xd9d4d039, 0xe6db99e5, 0x1fa27cf8, 0xc4ac5665,
     0xf4292244, 0x432aff97, 0xab9423a7, 0xfc93a039, 0x655b59c3, 0x8f0ccc92, 0xffeff47d, 0x85845dd1,
     0x6fa87e4f, 0xfe2ce6e0, 0xa3014314, 0x4e0811a1, 0xf7537e82, 0xbd3af235, 0x2ad7d2bb, 0xeb86d391]"

definition add32 :: "nat \<Rightarrow> nat \<Rightarrow> nat" where
  "add32 x y = (x + y) mod 4294967296"

definition not32 :: "nat \<Rightarrow> nat" where
  "not32 x = 4294967295 - x mod 4294967296"

definition rotl32 :: "nat \<Rightarrow> nat \<Rightarrow> nat" where
  "rotl32 x n = (x * 2 ^ n) mod 4294967296 + (x mod 4294967296) div 2 ^ (32 - n)"

definition md5_f :: "nat \<Rightarrow> nat \<Rightarrow> nat \<Rightarrow> nat \<Rightarrow> nat" where
  "md5_f i b c d =
     (if i < 16 then (b AND c) OR (not32 b AND d)
      else if i < 32 then (d AND b) OR (not32 d AND c)
      else if i < 48 then b XOR c XOR d
      else c XOR (b OR not32 d))"

definition md5_g :: "nat \<Rightarrow> nat" where
  "md5_g i =
     (if i < 16 then i
      else if i < 32 then (5 * i + 1) mod 16
      else if i < 48 then (3 * i + 5) mod 16
      else (7 * i) mod 16)"

type_synonym md5_state = "nat \<times> nat \<times> nat \<times> nat"

fun md5_step :: "nat list \<Rightarrow> md5_state \<Rightarrow> nat \<Rightarrow> md5_state" where
  "md5_step m (a, b, c, d) i =
     (d,
      add32 b (rotl32 (add32 (add32 (add32 (md5_f i b c d) a) (md5_K ! i)) (m ! md5_g i))
                 (md5_shifts ! i)),
      b, c)"

definition le32 :: "nat list \<Rightarrow> nat" where
  "le32 bs = foldr (\<lambda>b acc. b + 256 * acc) bs 0"

fun chunks :: "nat \<Rightarrow> 'a list \<Rightarrow> 'a list list" where
  "chunks n [] = []"
| "chunks n (x # xs) = (if n = 0 then [x # xs] else take n (x # xs) # chunks n (drop n (x # xs)))"

definition md5_block :: "md5_state \<Rightarrow> nat list \<Rightarrow> md5_state" where
  "md5_block st blk =
     (case st of (a0, b0, c0, d0) \<Rightarrow>
        (case foldl (md5_step (map le32 (chunks 4 blk))) st [0..<64] of (a, b, c, d) \<Rightarrow>
           (add32 a0 a, add32 b0 b, add32 c0 c, add32 d0 d)))"

definition le_bytes :: "nat \<Rightarrow> nat \<Rightarrow> nat list" where
  "le_bytes k n = map (\<lambda>i. (n div 256 ^ i) mod 256) [0..<k]"

text \<open>Padding: the byte \<open>0x80\<close>, zero bytes up to 56 modulo 64, the bit length in 64 bits.\<close>

definition md5_pad :: "nat list \<Rightarrow> nat list" where
  "md5_pad bs =
     bs @ [128] @ replicate ((119 - length bs mod 64) mod 64) 0
        @ le_bytes 8 ((8 * length bs) mod 18446744073709551616)"

definition md5_init :: md5_state where
  "md5_init = (0x67452301, 0xefcdab89, 0x98badcfe, 0x10325476)"

definition md5_digest :: "nat list \<Rightarrow> md5_state" where
  "md5_digest bs = foldl md5_block md5_init (chunks 64 (md5_pad bs))"

definition hex_digit :: "nat \<Rightarrow> char" where
  "hex_digit n = ''0123456789abcdef'' ! (n mod 16)"

definition hex_byte :: "nat \<Rightarrow> string" where
  "hex_byte b = [hex_digit (b div 16), hex_digit (b mod 16)]"

definition hex_word :: "nat \<Rightarrow> string" where
  "hex_word w = concat (map hex_byte (le_bytes 4 w))"

definition md5_hex :: "string \<Rightarrow> string" where
  "md5_hex s =
     (case md5_digest (map of_char s) of (a, b, c, d) \<Rightarrow>
        hex_word a @ hex_word b @ hex_word c @ hex_word d)"

subsection \<open>\<open>path.basename\<close> and \<open>path.extname\<close> (POSIX)\<close>

definition basename :: "string \<Rightarrow> string" where
  "basename p =
     rev (takeWhile (\<lambda>c. c \<noteq> CHR ''/'') (dropWhile (\<lambda>c. c = CHR ''/'') (rev p)))"

text \<open>On a name without a slash: the part from the last dot on, unless there is no dot,
  the last dot is the first character, or the name is \<open>..\<close>.\<close>

definition extname :: "string \<Rightarrow> string" where
  "extname n =
     (if CHR ''.'' \<notin> set n then []
      else (let ext = CHR ''.'' # rev (takeWhile (\<lambda>c. c \<noteq> CHR ''.'') (rev n));
                stem = take (length n - length ext) n
            in if stem = [] then [] else if n = ''..'' then [] else ext))"

subsection \<open>\<open>generateFilename\<close>\<close>

definition isSafeChar :: "char \<Rightarrow> bool" where
  "isSafeChar c = (c \<in> set ''abcdefghijklmnopqrstuvwxyz0123456789-'')"

text \<open>\<open>.replace(/-+/g, '-')\<close>.\<close>

fun collapseDashes :: "string \<Rightarrow> string" where
  "collapseDashes [] = []"
| "collapseDashes [c] = [c]"
| "collapseDashes (c # d # r) =
     (if c = CHR ''-'' \<and> d = CHR ''-'' then collapseDashes (d # r) else c # collapseDashes (d # r))"

text \<open>\<open>.replace(/^-|-$/g, '')\<close>.\<close>

definition trimDashes :: "string \<Rightarrow> string" where
  "trimDashes s =
     (let s1 = (if prefix ''-'' s then tl s else s)
      in if suffix ''-'' s1 then butlast s1 else s1)"

definition safeNameOf :: "string \<Rightarrow> string" where
  "safeNameOf nameWithoutExt =
     take 50 (trimDashes (collapseDashes
       (map (\<lambda>c. if isSafeChar c then c else CHR ''-'') (toLowerCase nameWithoutExt))))"

text \<open>
  \<open>generateFilename(url)\<close>.  \<open>pathnameOf url\<close> stands for \<open>new URL(url).pathname\<close>: the
  path of the parsed URL, or \<open>None\<close> when the constructor throws; nothing else in the
  \<open>try\<close> block can throw on a string.  (The path of a parsed URL is percent-encoded ASCII,
  on which \<open>toLowerCase\<close> is the ASCII lower-casing.)
\<close>

definition generateFilename :: "(string \<Rightarrow> string option) \<Rightarrow> string \<Rightarrow> string" where
  "generateFilename pathnameOf url =
     (case pathnameOf url of
        Some pathname \<Rightarrow>
          (let originalName = basename pathname;
               ext = (if extname originalName = [] then ''.jpg'' else extname originalName);
               nameWithoutExt = replaceFirst ext [] originalName;
               hash = take 8 (md5_hex url);
               safeName = safeNameOf nameWithoutExt
           in safeName @ ''-'' @ hash @ ext)
      | None \<Rightarrow> ''image-'' @ take 12 (md5_hex url) @ ''.jpg'')"

text \<open>
  A stand-in for the URL parser on the sample inputs: for a string
  \<open>scheme://authority/path?query#fragment\<close> with an alphanumeric scheme it returns the
  path (\<open>/\<close> when there is none); a string that does not start that way is rejected.
\<close>

fun afterScheme :: "string \<Rightarrow> string option" where
  "afterScheme [] = None"
| "afterScheme (c # cs) =
     (if prefix ''://'' (c # cs) then Some (drop 3 (c # cs))
      else if isAlnum c then afterScheme cs else None)"

definition samplePathname :: "string \<Rightarrow> string option" where
  "samplePathname url =
     (if prefix ''://'' url then None
      else (case afterScheme url of
              None \<Rightarrow> None
            | Some rest \<Rightarrow>
                (let path = takeWhile (\<lambda>c. c \<notin> set ''?#'') (dropWhile (\<lambda>c. c \<notin> set ''/?#'') rest)
                 in Some (if path = [] then ''/'' else path))))"

definition sampleUrlA :: string where
  "sampleUrlA = ''https://example.com/uploads/photo.jpg?v=27240''"

definition sampleUrlB :: string where
  "sampleUrlB = ''https://example.com/uploads/photo.jpg?v=38373''"

section \<open>Import reconciler (wp-import)\<close>

text \<open>
  The collaborators of \<open>importItem\<close> are explicit: the content directory of the item (what
  each local read returns), the backend (what each request returns, \<open>Inl\<close> for a rejected
  or failed one) and the options.  Every call to a collaborator and every line written to
  the console is recorded, in order, in a trace.
\<close>

datatype ctype = Posts | Pages

definition typeName :: "ctype \<Rightarrow> string" where
  "typeName ty = (case ty of Posts \<Rightarrow> ''posts'' | Pages \<Rightarrow> ''pages'')"

datatype error = Failure string

datatype 'a fileState = Missing | Unreadable string | Present 'a

record metadata =
  md_slug :: string
  md_title :: string
  md_status :: string
  md_excerpt :: "string option"
  md_template :: "string option"
  md_categories :: "nat list option"
  md_tags :: "nat list option"
  md_format :: "string option"
  md_sticky :: "bool option"
  md_parent :: "nat option"
  md_menu_order :: "int option"

record itemData =
  d_title :: string
  d_content :: string
  d_status :: string
  d_slug :: string
  d_excerpt :: string
  d_template :: string
  d_categories :: "nat list option"
  d_tags :: "nat list option"
  d_format :: "string option"
  d_sticky :: "bool option"
  d_parent :: "nat option"
  d_menu_order :: "int option"

record remoteItem =
  item_id :: nat

record itemDir =
  metadataJson :: "metadata fileState"
  bodyHtml :: "string fileState"
  mediaMappingJson :: "(string \<times> string) list fileState"
  jsonFiles :: "(string \<times> obj fileState) list"
  metaJson :: "obj fileState"
  mediaDir :: "string list option"

record backend =
  getBySlug :: "ctype \<Rightarrow> string \<Rightarrow> error + remoteItem option"
  createItem :: "ctype \<Rightarrow> itemData \<Rightarrow> error + remoteItem"
  updateItem :: "ctype \<Rightarrow> nat \<Rightarrow> itemData \<Rightarrow> error + remoteItem"
  putMeta :: "ctype \<Rightarrow> nat \<Rightarrow> string \<Rightarrow> obj \<Rightarrow> error + unit"
  uploadMedia :: "string \<Rightarrow> error + string"

record options =
  opt_media :: bool
  opt_dryRun :: bool
  opt_verbose :: bool

datatype logLevel = Success | Warning | Verbose | DryRun

datatype logPart = Txt string | Num nat

datatype event =
    ReadFile string
  | ListDir string
  | GetBySlug ctype string
  | CreateItem ctype itemData
  | UpdateItem ctype nat itemData
  | PutMeta ctype nat string obj
  | UploadMedia string
  | Log logLevel "logPart list"

record importResult =
  res_slug :: string
  res_action :: string
  res_reason :: "string option"
  res_dryRun :: bool
  res_id :: "nat option"
  res_extensions :: "string list option"

definition logVerbose :: "options \<Rightarrow> logPart list \<Rightarrow> event list" where
  "logVerbose opts msg = (if opt_verbose opts then [Log Verbose msg] else [])"

definition mediaExtensions :: "string list" where
  "mediaExtensions = [''jpg'', ''jpeg'', ''png'', ''gif'', ''webp'', ''svg'', ''pdf'']"

text \<open>\<open>/\.(jpg|jpeg|png|gif|webp|svg|pdf)$/i.test(f)\<close>.\<close>

definition isMediaFile :: "string \<Rightarrow> bool" where
  "isMediaFile f = list_ex (\<lambda>e. suffix (''.'' @ e) (toLowerCase f)) mediaExtensions"

text \<open>The loop of \<open>uploadAllMedia\<close>: the mapping from filename to new URL, the trace, and
  the number of successful uploads (the callback adds them to \<open>stats.mediaUploaded\<close>).\<close>

fun uploadLoop :: "backend \<Rightarrow> options \<Rightarrow> string list \<Rightarrow> (string \<times> string) list
    \<Rightarrow> (string \<times> string) list \<times> event list \<times> nat" where
  "uploadLoop be opts [] mapping = (mapping, [], 0)"
| "uploadLoop be opts (f # fs) mapping =
     (case uploadMedia be f of
        Inr url \<Rightarrow>
          (let (m, tr, n) = uploadLoop be opts fs (mapSet mapping f url)
           in (m, UploadMedia f # logVerbose opts [Txt ''    Uploaded: '', Txt f] @ tr, Suc n))
      | Inl (Failure msg) \<Rightarrow>
          (let (m, tr, n) = uploadLoop be opts fs mapping
           in (m, UploadMedia f # logVerbose opts [Txt ''    Failed: '', Txt f, Txt '' - '', Txt msg] @ tr, n)))"

definition uploadAllMedia :: "backend \<Rightarrow> options \<Rightarrow> string list option
    \<Rightarrow> (string \<times> string) list \<times> event list \<times> nat" where
  "uploadAllMedia be opts dir =
     (case dir of
        None \<Rightarrow> ([], [], 0)
      | Some files \<Rightarrow>
          (let (m, tr, n) = uploadLoop be opts (filter isMediaFile files) []
           in (m, ListDir ''media'' # tr, n)))"

definition metaFileNames :: "string list" where
  "metaFileNames = [''metadata.json'', ''media-mapping.json'', ''meta.json'']"

text \<open>The first loop of \<open>importExtensionMeta\<close>: the merged object, the extension names and
  the reads made, or the error of the first file that cannot be read.\<close>

fun extensionLoop :: "(string \<times> obj fileState) list \<Rightarrow> obj \<Rightarrow> string list \<Rightarrow> event list
    \<Rightarrow> (error + obj \<times> string list) \<times> event list" where
  "extensionLoop [] acc names tr = (Inr (acc, names), tr)"
| "extensionLoop ((file, st) # rest) acc names tr =
     (if file \<in> set metaFileNames then extensionLoop rest acc names tr
      else
        (case st of
           Present extData \<Rightarrow>
             extensionLoop rest (objAssign acc extData)
               (names @ [replaceFirst ''.json'' [] file]) (tr @ [ReadFile file])
         | Unreadable msg \<Rightarrow> (Inl (Failure msg), tr @ [ReadFile file])
         | Missing \<Rightarrow> (Inl (Failure ''ENOENT''), tr @ [ReadFile file])))"

definition endpointOf :: "ctype \<Rightarrow> string" where
  "endpointOf ty = (if ty = Posts then ''/posts'' else ''/pages'')"

text \<open>The push of the merged object: the combined field \<open>all_meta\<close> first, the standard
  field \<open>meta\<close> when that request is rejected, a warning when both are.\<close>

definition pushMeta :: "backend \<Rightarrow> options \<Rightarrow> ctype \<Rightarrow> nat \<Rightarrow> obj \<Rightarrow> string list \<Rightarrow> event list" where
  "pushMeta be opts ty postId metaToImport names =
     PutMeta ty postId ''all_meta'' metaToImport #
       (case putMeta be ty postId ''all_meta'' metaToImport of
          Inr _ \<Rightarrow> logVerbose opts (Txt ''  Imported extension meta: '' # map Txt names)
        | Inl _ \<Rightarrow>
            PutMeta ty postId ''meta'' metaToImport #
              (case putMeta be ty postId ''meta'' metaToImport of
                 Inr _ \<Rightarrow> logVerbose opts [Txt ''  Imported meta via standard API'']
               | Inl (Failure msg) \<Rightarrow> [Log Warning [Txt ''  Could not import meta: '', Txt msg]]))"

definition importExtensionMeta :: "backend \<Rightarrow> options \<Rightarrow> itemDir \<Rightarrow> nat \<Rightarrow> ctype \<Rightarrow> bool
    \<Rightarrow> (error + string list) \<times> event list" where
  "importExtensionMeta be opts dir postId ty dryRun =
     (case extensionLoop (jsonFiles dir) [] [] [ListDir ''.''] of
        (Inl e, tr) \<Rightarrow> (Inl e, tr)
      | (Inr (acc, names), tr) \<Rightarrow>
          (case (case metaJson dir of
                   Missing \<Rightarrow> (Inr acc, tr)
                 | Present metaData \<Rightarrow> (Inr (objAssign acc metaData), tr @ [ReadFile ''meta.json''])
                 | Unreadable msg \<Rightarrow> (Inl (Failure msg), tr @ [ReadFile ''meta.json''])) of
             (Inl e, tr') \<Rightarrow> (Inl e, tr')
           | (Inr metaToImport, tr') \<Rightarrow>
               if length (objKeys metaToImport) = 0 then (Inr names, tr')
               else if dryRun then
                 (Inr names,
                  tr' @ logVerbose opts [Txt ''  Would import '', Num (length (objKeys metaToImport)),
                                          Txt '' meta fields''])
               else (Inr names, tr' @ pushMeta be opts ty postId metaToImport names)))"

text \<open>The decision of \<open>importItem\<close>, from the declared mode and the result of the lookup.\<close>

definition determineAction :: "string \<Rightarrow> remoteItem option \<Rightarrow> string" where
  "determineAction importMode existingItem =
     (if importMode = ''create'' \<and> existingItem = None then ''create''
      else if importMode = ''update'' \<and> existingItem \<noteq> None then ''update''
      else if importMode = ''sync'' then (if existingItem \<noteq> None then ''update'' else ''create'')
      else ''skip'')"

definition skipReason :: "remoteItem option \<Rightarrow> string" where
  "skipReason existingItem =
     (if existingItem \<noteq> None then ''exists (mode=create)'' else ''not found (mode=update)'')"

definition orEmpty :: "string option \<Rightarrow> string" where
  "orEmpty s = (case s of None \<Rightarrow> [] | Some x \<Rightarrow> x)"

definition prepareItemData :: "ctype \<Rightarrow> metadata \<Rightarrow> string \<Rightarrow> itemData" where
  "prepareItemData ty md content =
     \<lparr> d_title = md_title md,
       d_content = content,
       d_status = md_status md,
       d_slug = md_slug md,
       d_excerpt = orEmpty (md_excerpt md),
       d_template = orEmpty (md_template md),
       d_categories =
         (if ty = Posts then
            (case md_categories md of Some cs \<Rightarrow> if length cs > 0 then Some cs else None | None \<Rightarrow> None)
          else None),
       d_tags =
         (if ty = Posts then
            (case md_tags md of Some ts \<Rightarrow> if length ts > 0 then Some ts else None | None \<Rightarrow> None)
          else None),
       d_format =
         (if ty = Posts then
            (case md_format md of Some f \<Rightarrow> if f \<noteq> [] then Some f else None | None \<Rightarrow> None)
          else None),
       d_sticky = (if ty = Posts then md_sticky md else None),
       d_parent =
         (if ty = Pages then
            (case md_parent md of Some p \<Rightarrow> if p \<noteq> 0 then Some p else None | None \<Rightarrow> None)
          else None),
       d_menu_order =
         (if ty = Pages then
            (case md_menu_order md of Some m \<Rightarrow> if m \<noteq> 0 then Some m else None | None \<Rightarrow> None)
          else None) \<rparr>"

text \<open>The media step of \<open>importItem\<close>: the content with restored URLs, the trace and the
  number of uploads.  It runs only when media is enabled and the run is not a dry run.\<close>

definition mediaStep :: "backend \<Rightarrow> options \<Rightarrow> itemDir \<Rightarrow> string
    \<Rightarrow> (error + string) \<times> event list \<times> nat" where
  "mediaStep be opts dir content =
     (if opt_media opts \<and> \<not> opt_dryRun opts then
        (case mediaMappingJson dir of
           Unreadable msg \<Rightarrow> (Inl (Failure msg), [ReadFile ''media-mapping.json''], 0)
         | Missing \<Rightarrow> (Inr content, [], 0)
         | Present originalMapping \<Rightarrow>
             if length originalMapping > 0 then
               (let (mediaMapping, tr, n) = uploadAllMedia be opts (mediaDir dir);
                    tr' = ReadFile ''media-mapping.json'' #
                            logVerbose opts [Txt ''  Uploading '', Num (length originalMapping),
                                             Txt '' media files...''] @ tr
                in if length mediaMapping > 0 then
                     (case restoreMediaUrls content mediaMapping of
                        Some c \<Rightarrow> (Inr c, tr', n)
                      | None \<Rightarrow> (Inl (Failure ''pattern outside the modelled fragment''), tr', n))
                   else (Inr content, tr', n))
             else (Inr content, [ReadFile ''media-mapping.json''], 0))
      else (Inr content, [], 0))"

text \<open>The execution of the decided action and the import of the metadata groups.  An
  update reads \<open>existingItem.id\<close>, which throws when there is no existing item.\<close>

definition executeAction :: "backend \<Rightarrow> options \<Rightarrow> itemDir \<Rightarrow> string \<Rightarrow> ctype \<Rightarrow> string
    \<Rightarrow> remoteItem option \<Rightarrow> itemData \<Rightarrow> (error + importResult) \<times> event list" where
  "executeAction be opts dir slug ty action existingItem data =
     (case (if action = ''create''
            then Some (createItem be ty data, CreateItem ty data, ''Created '')
            else (case existingItem of
                    None \<Rightarrow> None
                  | Some ex \<Rightarrow> Some (updateItem be ty (item_id ex) data,
                                       UpdateItem ty (item_id ex) data, ''Updated ''))) of
        None \<Rightarrow> (Inl (Failure ''TypeError''), [])
      | Some (call, ev, word) \<Rightarrow>
          (case call of
             Inl e \<Rightarrow> (Inl e, [ev])
           | Inr result \<Rightarrow>
               (let tr = [ev, Log Success [Txt word, Txt (typeName ty), Txt ''/'', Txt slug,
                                           Txt '' (ID: '', Num (item_id result), Txt '')'']]
                in case importExtensionMeta be opts dir (item_id result) ty (opt_dryRun opts) of
                     (Inl e, tr') \<Rightarrow> (Inl e, tr @ tr')
                   | (Inr importedExtensions, tr') \<Rightarrow>
                       (Inr \<lparr> res_slug = slug, res_action = action, res_reason = None,
                              res_dryRun = False, res_id = Some (item_id result),
                              res_extensions = Some importedExtensions \<rparr>,
                        tr @ tr'))))"

text \<open>The second half of \<open>importItem\<close>: the lookup by slug (a failed lookup counts as
  "no such item"), the decision, and the skip, the dry-run report or the execution.\<close>

definition reconcile :: "backend \<Rightarrow> options \<Rightarrow> string \<Rightarrow> itemDir \<Rightarrow> string \<Rightarrow> ctype
    \<Rightarrow> metadata \<Rightarrow> string \<Rightarrow> (error + importResult) \<times> event list" where
  "reconcile be opts importMode dir slug ty md content =
     (let existingItem =
            (case getBySlug be ty (md_slug md) of
               Inr found \<Rightarrow> found
             | Inl _ \<Rightarrow> None);
          action = determineAction importMode existingItem
      in if action = ''skip'' then
           (Inr \<lparr> res_slug = slug, res_action = ''skipped'',
                  res_reason = Some (skipReason existingItem), res_dryRun = False,
                  res_id = None, res_extensions = None \<rparr>,
            [GetBySlug ty (md_slug md)])
         else if opt_dryRun opts then
           (Inr \<lparr> res_slug = slug, res_action = ''would-'' @ action,
                  res_reason = None, res_dryRun = True, res_id = None,
                  res_extensions = None \<rparr>,
            [GetBySlug ty (md_slug md),
             Log DryRun [Txt ''Would '', Txt action, Txt '' '', Txt (typeName ty), Txt ''/'', Txt slug]])
         else
           (case executeAction be opts dir slug ty action existingItem
                   (prepareItemData ty md content) of
              (r, tr) \<Rightarrow> (r, GetBySlug ty (md_slug md) # tr)))"

text \<open>\<open>importItem(slug, type, config, client, stats)\<close>: the result (or the error thrown),
  the trace, and the increment of \<open>stats.mediaUploaded\<close>.\<close>

definition importItem :: "backend \<Rightarrow> options \<Rightarrow> string \<Rightarrow> itemDir \<Rightarrow> string \<Rightarrow> ctype
    \<Rightarrow> (error + importResult) \<times> event list \<times> nat" where
  "importItem be opts importMode dir slug ty =
     (let tr0 = logVerbose opts [Txt ''Processing '', Txt (typeName ty), Txt ''/'', Txt slug]
      in case metadataJson dir of
           Missing \<Rightarrow> (Inl (Failure ''metadata.json not found''), tr0, 0)
         | Unreadable msg \<Rightarrow> (Inl (Failure msg), tr0 @ [ReadFile ''metadata.json''], 0)
         | Present md \<Rightarrow>
             (let (content, tr1) =
                    (case bodyHtml dir of
                       Present html \<Rightarrow> (html, [ReadFile ''body.html''])
                     | _ \<Rightarrow> ([], ReadFile ''body.html'' #
                                logVerbose opts [Txt ''  No body.html found, using empty content'']));
                  trA = tr0 @ [ReadFile ''metadata.json''] @ tr1
              in case mediaStep be opts dir content of
                   (Inl e, tr2, n) \<Rightarrow> (Inl e, trA @ tr2, n)
                 | (Inr content', tr2, n) \<Rightarrow>
                     (case reconcile be opts importMode dir slug ty md content' of
                        (r, tr3) \<Rightarrow> (r, trA @ tr2 @ tr3, n))))"

text \<open>The requests that change the remote site, and the uploads.\<close>

definition isMutation :: "event \<Rightarrow> bool" where
  "isMutation ev =
     (case ev of
        CreateItem _ _ \<Rightarrow> True
      | UpdateItem _ _ _ \<Rightarrow> True
      | PutMeta _ _ _ _ \<Rightarrow> True
      | UploadMedia _ \<Rightarrow> True
      | _ \<Rightarrow> False)"

text \<open>The metadata group files of an item directory (every \<open>.json\<close> file but the three
  reserved names), and the object the spec describes: all of them merged in listing
  order, then \<open>meta.json\<close>.\<close>

definition groupFiles :: "itemDir \<Rightarrow> (string \<times> obj fileState) list" where
  "groupFiles dir = filter (\<lambda>(f, st). f \<notin> set metaFileNames) (jsonFiles dir)"

definition contentOf :: "obj fileState \<Rightarrow> obj" where
  "contentOf st = (case st of Present ob \<Rightarrow> ob | _ \<Rightarrow> [])"

definition isPresent :: "'a fileState \<Rightarrow> bool" where
  "isPresent st = (case st of Present _ \<Rightarrow> True | _ \<Rightarrow> False)"

definition isUnreadable :: "'a fileState \<Rightarrow> bool" where
  "isUnreadable st = (case st of Unreadable _ \<Rightarrow> True | _ \<Rightarrow> False)"

definition mergedMeta :: "itemDir \<Rightarrow> obj" where
  "mergedMeta dir =
     objAssign (foldl objAssign [] (map (contentOf \<circ> snd) (groupFiles dir))) (contentOf (metaJson dir))"

definition groupNames :: "itemDir \<Rightarrow> string list" where
  "groupNames dir = map (\<lambda>(f, st). replaceFirst ''.json'' [] f) (groupFiles dir)"

definition groupReads :: "itemDir \<Rightarrow> event list" where
  "groupReads dir =
     ListDir ''.'' # map (\<lambda>(f, st). ReadFile f) (groupFiles dir)
       @ (if isPresent (metaJson dir) then [ReadFile ''meta.json''] else [])"

definition allReadable :: "itemDir \<Rightarrow> bool" where
  "allReadable dir =
     (list_all (\<lambda>(f, st). isPresent st) (groupFiles dir) \<and> \<not> isUnreadable (metaJson dir))"

section \<open>A sample item directory and backend\<close>

definition demoMetadata :: metadata where
  "demoMetadata =
     \<lparr> md_slug = ''hello-world'', md_title = ''Hello'', md_status = ''publish'',
       md_excerpt = None, md_template = None, md_categories = Some [3], md_tags = None,
       md_format = Some ''standard'', md_sticky = Some False, md_parent = None,
       md_menu_order = None \<rparr>"

definition demoDir :: itemDir where
  "demoDir =
     \<lparr> metadataJson = Present demoMetadata,
       bodyHtml = Present ''<img src=./media/photo.jpg>'',
       mediaMappingJson = Present [(''https://old.example/photo.jpg'', ''photo.jpg'')],
       jsonFiles = [(''media-mapping.json'', Present []),
                    (''metadata.json'', Present []),
                    (''rank-math.json'', Present [(''rank_math_title'', JStr ''T'')]),
                    (''yoast.json'', Present [(''_yoast_wpseo_title'', JStr ''Y'')])],
       metaJson = Present [(''custom_flag'', JNum 0)],
       mediaDir = Some [''photo.jpg'', ''notes.txt''] \<rparr>"

text \<open>A backend without an item of that slug, which accepts content and uploads and
  rejects every metadata push.\<close>

definition demoBackend :: backend where
  "demoBackend =
     \<lparr> getBySlug = (\<lambda>ty s. Inr None),
       createItem = (\<lambda>ty d. Inr \<lparr> item_id = 7 \<rparr>),
       updateItem = (\<lambda>ty i d. Inr \<lparr> item_id = i \<rparr>),
       putMeta = (\<lambda>ty i field ob. Inl (Failure ''rest_invalid_param'')),
       uploadMedia = (\<lambda>f. Inr (''https://new.example/'' @ f)) \<rparr>"

text \<open>The same backend with an item of every slug.\<close>

definition existingBackend :: backend where
  "existingBackend = demoBackend \<lparr> getBySlug := (\<lambda>ty s. Inr (Some \<lparr> item_id = 42 \<rparr>)) \<rparr>"

definition dryOpts :: options where
  "dryOpts = \<lparr> opt_media = True, opt_dryRun = True, opt_verbose = True \<rparr>"

definition realOpts :: options where
  "realOpts = \<lparr> opt_media = True, opt_dryRun = False, opt_verbose = True \<rparr>"


text \<open>The same backend accepting every metadata push.\<close>

definition acceptingBackend :: backend where
  "acceptingBackend = demoBackend \<lparr> putMeta := (\<lambda>ty i field ob. Inr ()) \<rparr>"

text \<open>The sample directory with a group file that does not parse, and the sample
  directory without any metadata file.\<close>

definition brokenDir :: itemDir where
  "brokenDir =
     demoDir \<lparr> jsonFiles := [(''metadata.json'', Present []),
                              (''rank-math.json'', Present [(''rank_math_title'', JStr ''T'')]),
                              (''yoast.json'', Unreadable ''Unexpected end of JSON input'')] \<rparr>"

definition bareDir :: itemDir where
  "bareDir = demoDir \<lparr> jsonFiles := [(''metadata.json'', Present [])], metaJson := Missing \<rparr>"
section \<open>Emptiness\<close>

lemma isEmpty_iff:
  "isEmpty v \<longleftrightarrow> v = JNull \<or> v = JUndefined \<or> v = JStr [] \<or> v = JArr [] \<or> v = JObj []"
  by (cases v) (auto simp: isEmpty_def isArray_def keyCount_def typeof_def)

lemma matchPlugins_fresh:
  "key \<notin> a \<Longrightarrow> matchPlugins key v sps (g, a) =
     (case find (\<lambda>p. list_ex (matchesPrefix key) (plugin_prefixes p)) sps of
        None \<Rightarrow> (g, a)
      | Some p \<Rightarrow> (addToGroup g p key v, insert key a))"
  by (induction sps arbitrary: g a) auto

lemma matchesPrefix_z: "matchesPrefix ''z'' pre \<longleftrightarrow> pre = ''z''"
  by (cases pre) (auto simp: matchesPrefix_def prefixPatterns_def startsWith_def prefix_Cons)

lemma extractPrefix_z: "extractPrefix ''z'' = None"
  by (simp add: extractPrefix_def startsWith_def isAlnum_def)

lemma objSet_Nil [simp]: "k \<noteq> ''__proto__'' \<Longrightarrow> objSet [] k v = [(k, v)]"
  by (simp add: objSet_def)

text \<open>Descriptors that tie on their longest prefix keep their input order.\<close>

lemma sortPlugins_tie:
  "comparePlugins a b \<le> 0 \<Longrightarrow> sortPlugins [a, b] = [a, b]"
  by (simp add: sortPlugins_def)

text \<open>
  C3 (as amended).  \<open>isEmpty\<close> holds exactly for \<open>null\<close>, \<open>undefined\<close>, the empty string,
  the empty array and the empty object; the number \<open>0\<close> and the boolean \<open>false\<close> are not
  empty.  In the bag \<open>{"x": "", "y": [], "z": 0}\<close> the emptiness test rejects \<open>x\<close> and \<open>y\<close>
  and lets \<open>z\<close> through: whatever the descriptors are, \<open>x\<close> and \<open>y\<close> appear nowhere in the
  result of \<open>groupMetaByPlugin\<close>; \<open>z\<close> is kept, with its value \<open>0\<close>, in the group of the
  first descriptor in sorted order that lists the prefix \<open>z\<close>, and when no descriptor
  lists it \<open>z\<close> is left out too, by the rule for keys without an underscore.
\<close>

theorem isEmpty_exact_and_scenario:
  "(isEmpty v \<longleftrightarrow> v = JNull \<or> v = JUndefined \<or> v = JStr [] \<or> v = JArr [] \<or> v = JObj [])
   \<and> \<not> isEmpty (JNum 0) \<and> \<not> isEmpty (JBool False)
   \<and> isEmpty (JStr []) \<and> isEmpty (JArr [])
   \<and> filter (\<lambda>(k, w). \<not> isEmpty w) [(''x'', JStr []), (''y'', JArr []), (''z'', JNum 0)]
       = [(''z'', JNum 0)]
   \<and> groupMetaByPlugin [(''x'', JStr []), (''y'', JArr []), (''z'', JNum 0)] ps =
       (case find (\<lambda>p. ''z'' \<in> set (plugin_prefixes p)) (sortPlugins ps) of
          None \<Rightarrow> ([], None)
        | Some p \<Rightarrow> ([(plugin_slug p, (p, [(''z'', JNum 0)]))], None))"
proof -
  have scen: "groupMetaByPlugin [(''x'', JStr []), (''y'', JArr []), (''z'', JNum 0)] ps =
       (case find (\<lambda>p. ''z'' \<in> set (plugin_prefixes p)) (sortPlugins ps) of
          None \<Rightarrow> ([], None)
        | Some p \<Rightarrow> ([(plugin_slug p, (p, [(''z'', JNum 0)]))], None))"
    by (simp add: groupMetaByPlugin_def isEmpty_iff matchPlugins_fresh skipKeys_def
        skipPrefixes_def startsWith_def list_ex_iff sublist_Cons_right matchesPrefix_z
        extractPrefix_z includesStr_def hasMeaningfulContent_def addToGroup_def
        split: option.splits)
  show ?thesis
    using scen by (simp add: isEmpty_iff)
qed

text \<open>
  C3 as stated fails: with no descriptor, or none that lists the prefix \<open>z\<close>, the key \<open>z\<close>
  of the bag is not retained, although it is not empty: the result has no group and no
  remainder.  (With two descriptors that both list \<open>z\<close> it is kept under the first one.)
\<close>

theorem scenario_z_not_retained:
  "\<not> isEmpty (JNum 0)
   \<and> groupMetaByPlugin [(''x'', JStr []), (''y'', JArr []), (''z'', JNum 0)] [] = ([], None)
   \<and> groupMetaByPlugin [(''x'', JStr []), (''y'', JArr []), (''z'', JNum 0)]
        [\<lparr>plugin_slug = ''seo'', plugin_name = ''Seo'', plugin_prefixes = [''seo''],
          plugin_autoDetected = False\<rparr>] = ([], None)
   \<and> groupMetaByPlugin [(''x'', JStr []), (''y'', JArr []), (''z'', JNum 0)]
        [\<lparr>plugin_slug = ''a'', plugin_name = ''A'', plugin_prefixes = [''z''],
          plugin_autoDetected = False\<rparr>,
         \<lparr>plugin_slug = ''b'', plugin_name = ''B'', plugin_prefixes = [''z''],
          plugin_autoDetected = False\<rparr>]
       = ([(''a'', (\<lparr>plugin_slug = ''a'', plugin_name = ''A'', plugin_prefixes = [''z''],
                     plugin_autoDetected = False\<rparr>, [(''z'', JNum 0)]))], None)"
  by (simp add: groupMetaByPlugin_def isEmpty_iff matchPlugins_fresh skipKeys_def
      skipPrefixes_def startsWith_def list_ex_iff sublist_Cons_right matchesPrefix_z
      extractPrefix_z includesStr_def hasMeaningfulContent_def addToGroup_def sortPlugins_def
      comparePlugins_def maxPrefixLength_def)

section \<open>Exclusivity of the classifier\<close>

lemma mset_fst_add:
  "mset xs = add_mset (k, v) (mset ys) \<Longrightarrow> mset (map fst xs) = add_mset k (mset (map fst ys))"
  by (metis fst_conv image_mset_add_mset mset_map)

lemma distinct_from_mset:
  "mset xs = add_mset k (mset ys) \<Longrightarrow> k \<notin> set ys \<Longrightarrow> distinct ys \<Longrightarrow> distinct xs"
  by (metis distinct.simps(2) mset.simps(2) mset_eq_imp_distinct_iff)

lemma set_from_mset: "mset xs = add_mset k (mset ys) \<Longrightarrow> set xs = insert k (set ys)"
  by (metis list.simps(15) mset.simps(2) mset_eq_setD)

lemma objInsert_mset: "mset (objInsert m k v) = add_mset (k, v) (mset m)"
  by (induction m) auto

lemma objSet_proto [simp]: "objSet m ''__proto__'' v = m"
  by (simp add: objSet_def)

lemma objSet_fresh:
  "k \<notin> set (map fst m) \<Longrightarrow> k \<noteq> ''__proto__'' \<Longrightarrow> mset (objSet m k v) = add_mset (k, v) (mset m)"
  by (simp add: objSet_def objInsert_mset)

lemma objAssign_Cons: "objAssign m ((k, v) # d) = objAssign (objSet m k v) d"
  by (simp add: objAssign_def)

lemma objAssign_fresh:
  "distinct (map fst d) \<Longrightarrow> set (map fst d) \<inter> set (map fst m) = {} \<Longrightarrow>
   ''__proto__'' \<notin> set (map fst d) \<Longrightarrow> mset (objAssign m d) = mset m + mset d"
proof (induction d arbitrary: m)
  case Nil
  then show ?case by (simp add: objAssign_def)
next
  case (Cons e d)
  obtain k v where e: "e = (k, v)" by (cases e)
  have k: "k \<notin> set (map fst m)" "k \<noteq> ''__proto__''" using Cons.prems e by auto
  have ms: "mset (objSet m k v) = add_mset (k, v) (mset m)"
    using k by (rule objSet_fresh)
  have ks: "set (map fst (objSet m k v)) = insert k (set (map fst m))"
    using set_from_mset [OF mset_fst_add [OF ms]] .
  have "mset (objAssign (objSet m k v) d) = mset (objSet m k v) + mset d"
    using Cons.prems e ks by (intro Cons.IH) auto
  then show ?case using ms e by (simp add: objAssign_Cons)
qed

lemma groupEntries_simps [simp]:
  "groupEntries [] = []"
  "groupEntries ((s, q, m) # g) = m @ groupEntries g"
  "groupEntries (g @ h) = groupEntries g @ groupEntries h"
  by (simp_all add: groupEntries_def)

lemma unknownEntries_simps [simp]:
  "unknownEntries [] = []"
  "unknownEntries ((s, m) # g) = m @ unknownEntries g"
  "unknownEntries (g @ h) = unknownEntries g @ unknownEntries h"
  by (simp_all add: unknownEntries_def)

lemma update_group_absent:
  "s \<notin> set (map fst g) \<Longrightarrow>
   map (\<lambda>(t, (q, m)). if t = s then (t, (q, f m)) else (t, (q, m))) g = g"
  by (induction g) auto

lemma update_group_slugs:
  "map fst (map (\<lambda>(t, (q, m)). if t = s then (t, (q, f m)) else (t, (q, m))) g) = map fst g"
  by (induction g) auto

lemma update_group_present:
  assumes "distinct (map fst g)" and "s \<in> set (map fst g)"
    and "\<And>m. set m \<subseteq> set (groupEntries g) \<Longrightarrow> mset (f m) = mset m + mset d"
  shows "mset (groupEntries (map (\<lambda>(t, (q, m)). if t = s then (t, (q, f m)) else (t, (q, m))) g))
           = mset (groupEntries g) + mset d"
  using assms
proof (induction g)
  case Nil
  then show ?case by simp
next
  case (Cons x g)
  obtain t q m where x: "x = (t, q, m)" by (cases x)
  show ?case
  proof (cases "t = s")
    case True
    then have "s \<notin> set (map fst g)" using Cons.prems x by auto
    then have "map (\<lambda>(t, (q, m)). if t = s then (t, (q, f m)) else (t, (q, m))) g = g"
      by (rule update_group_absent)
    moreover have "mset (f m) = mset m + mset d" using Cons.prems(3) x by auto
    ultimately show ?thesis using True x by simp
  next
    case False
    have "mset (groupEntries (map (\<lambda>(t, (q, m)). if t = s then (t, (q, f m)) else (t, (q, m))) g))
           = mset (groupEntries g) + mset d"
      using Cons.prems x False by (intro Cons.IH) auto
    then show ?thesis using False x by simp
  qed
qed

lemma addToGroup_slug_list:
  "map fst (addToGroup g p k v) =
     (if plugin_slug p \<in> set (map fst g) then map fst g else map fst g @ [plugin_slug p])"
  unfolding addToGroup_def Let_def update_group_slugs by simp

lemma addToGroup_slugs:
  "distinct (map fst g) \<Longrightarrow> distinct (map fst (addToGroup g p k v))"
  unfolding addToGroup_slug_list by simp

lemma addToGroup_entries:
  assumes "distinct (map fst g)" and "k \<notin> set (map fst (groupEntries g))"
  shows "mset (groupEntries (addToGroup g p k v)) =
           mset (groupEntries g) + mset (if k = ''__proto__'' then [] else [(k, v)])"
proof -
  let ?d = "if k = ''__proto__'' then [] else [(k, v)]"
  have f: "\<And>h m. set m \<subseteq> set (groupEntries h) \<Longrightarrow> groupEntries h = groupEntries g \<Longrightarrow>
      mset (objSet m k v) = mset m + mset ?d"
  proof -
    fix h m
    assume "set m \<subseteq> set (groupEntries h)" and "groupEntries h = groupEntries g"
    then have "k \<notin> set (map fst m)" using assms(2) by auto
    then show "mset (objSet m k v) = mset m + mset ?d"
      by (simp add: objSet_fresh)
  qed
  show ?thesis
  proof (cases "plugin_slug p \<in> set (map fst g)")
    case True
    have "\<And>m. set m \<subseteq> set (groupEntries g) \<Longrightarrow> mset (objSet m k v) = mset m + mset ?d"
      using f by blast
    from update_group_present [OF assms(1) True this]
    show ?thesis using True by (simp add: addToGroup_def)
  next
    case False
    let ?g = "g @ [(plugin_slug p, (p, []))]"
    have d: "distinct (map fst ?g)" using assms(1) False by simp
    have i: "plugin_slug p \<in> set (map fst ?g)" by simp
    have "\<And>m. set m \<subseteq> set (groupEntries ?g) \<Longrightarrow> mset (objSet m k v) = mset m + mset ?d"
      using f [of _ ?g] by simp
    from update_group_present [OF d i this]
    show ?thesis using False by (simp add: addToGroup_def)
  qed
qed

lemma matchPlugins_cases:
  assumes "k \<notin> a"
  shows "matchPlugins k v sps (g, a) = (g, a)
       \<or> (\<exists>p. matchPlugins k v sps (g, a) = (addToGroup g p k v, insert k a))"
  using assms by (induction sps) auto

text \<open>The first loop keeps the group slugs and the keys of all groups pairwise distinct;
  every key in a group is marked as assigned, and every assigned key but \<open>__proto__\<close> is in
  a group.\<close>

lemma knownLoop_invariant:
  assumes "distinct (map fst es)" and "set (map fst es) \<inter> a = {}"
    and "distinct (map fst g)" and "distinct (map fst (groupEntries g))"
    and "set (map fst (groupEntries g)) \<subseteq> a"
    and "a \<subseteq> insert ''__proto__'' (set (map fst (groupEntries g)))"
    and "set (groupEntries g) \<subseteq> S" and "\<And>e. e \<in> set es \<Longrightarrow> classifiable e \<Longrightarrow> e \<in> S"
    and "knownLoop es sps (g, a) = (g', a')"
  shows "distinct (map fst g') \<and> distinct (map fst (groupEntries g'))
       \<and> set (map fst (groupEntries g')) \<subseteq> a'
       \<and> a' \<subseteq> insert ''__proto__'' (set (map fst (groupEntries g')))
       \<and> set (groupEntries g') \<subseteq> S"
  using assms
proof (induction es arbitrary: g a)
  case Nil
  then show ?case by simp
next
  case (Cons e es)
  obtain k v where e: "e = (k, v)" by (cases e)
  have ka: "k \<notin> a" using Cons.prems(2) e by auto
  let ?st = "if isEmpty v then (g, a)
        else if k \<in> set skipKeys then (g, a)
        else if list_ex (\<lambda>p. startsWith k p) skipPrefixes then (g, a)
        else matchPlugins k v sps (g, a)"
  have step: "knownLoop es sps ?st = (g', a')"
    using Cons.prems(9) e by simp
  have rest: "distinct (map fst es)" "\<And>e. e \<in> set es \<Longrightarrow> classifiable e \<Longrightarrow> e \<in> S"
    using Cons.prems by auto
  have "?st = (g, a) \<or> (\<exists>p. ?st = (addToGroup g p k v, insert k a) \<and> \<not> isEmpty v \<and> \<not> isSkipped k)"
  proof (cases "isEmpty v \<or> isSkipped k")
    case True
    then show ?thesis by (auto simp: isSkipped_def)
  next
    case False
    then have "?st = matchPlugins k v sps (g, a)" by (auto simp: isSkipped_def)
    then show ?thesis using matchPlugins_cases [OF ka, of v sps g] False by auto
  qed
  then consider (same) "?st = (g, a)"
    | (added) p where "?st = (addToGroup g p k v, insert k a)" "\<not> isEmpty v" "\<not> isSkipped k"
    by blast
  then show ?case
  proof cases
    case same
    have "set (map fst es) \<inter> a = {}" using Cons.prems(2) by auto
    then show ?thesis
      using Cons.IH [OF rest(1) _ Cons.prems(3,4,5,6,7) rest(2)] step same by auto
  next
    case added
    let ?g = "addToGroup g p k v"
    have kg: "k \<notin> set (map fst (groupEntries g))" using ka Cons.prems(5) by auto
    have ms: "mset (groupEntries ?g) =
        mset (groupEntries g) + mset (if k = ''__proto__'' then [] else [(k, v)])"
      using addToGroup_entries [OF Cons.prems(3) kg] .
    have d1: "distinct (map fst ?g)" using Cons.prems(3) by (rule addToGroup_slugs)
    have kv: "(k, v) \<in> S"
      using Cons.prems(8) [of "(k, v)"] e added by (simp add: classifiable_def)
    have dj: "set (map fst es) \<inter> insert k a = {}" using Cons.prems(1,2) e by auto
    have "distinct (map fst (groupEntries ?g)) \<and> set (map fst (groupEntries ?g)) \<subseteq> insert k a
        \<and> insert k a \<subseteq> insert ''__proto__'' (set (map fst (groupEntries ?g)))
        \<and> set (groupEntries ?g) \<subseteq> S"
    proof (cases "k = ''__proto__''")
      case True
      then have m0: "mset (groupEntries ?g) = mset (groupEntries g)" using ms by simp
      then have s0: "set (groupEntries ?g) = set (groupEntries g)"
        by (rule mset_eq_setD)
      have "image_mset fst (mset (groupEntries ?g)) = image_mset fst (mset (groupEntries g))"
        by (simp only: m0)
      then have m1: "mset (map fst (groupEntries ?g)) = mset (map fst (groupEntries g))"
        by simp
      have d0: "distinct (map fst (groupEntries ?g))"
        using mset_eq_imp_distinct_iff [OF m1] Cons.prems(4) by blast
      have s1: "set (map fst (groupEntries ?g)) = set (map fst (groupEntries g))"
        using m1 by (rule mset_eq_setD)
      show ?thesis
        using Cons.prems(5,6,7) True d0 s0 s1 by auto
    next
      case False
      then have ms': "mset (groupEntries ?g) = add_mset (k, v) (mset (groupEntries g))"
        using ms by simp
      then have ks: "mset (map fst (groupEntries ?g)) = add_mset k (mset (map fst (groupEntries g)))"
        by (rule mset_fst_add)
      have d2: "distinct (map fst (groupEntries ?g))"
        using ks kg Cons.prems(4) by (rule distinct_from_mset)
      have s1: "set (map fst (groupEntries ?g)) = insert k (set (map fst (groupEntries g)))"
        using ks by (rule set_from_mset)
      have s2: "set (groupEntries ?g) \<subseteq> S"
        using set_from_mset [OF ms'] Cons.prems(7) kv by simp
      show ?thesis
        using d2 s1 s2 Cons.prems(5,6) by auto
    qed
    then show ?thesis
      using Cons.IH [OF rest(1) dj d1 _ _ _ _ rest(2)] step added by auto
  qed
qed

lemma update_unknown_absent:
  "s \<notin> set (map fst ug) \<Longrightarrow> map (\<lambda>(q, m). if q = s then (q, f m) else (q, m)) ug = ug"
  by (induction ug) auto

lemma update_unknown_keys:
  "map fst (map (\<lambda>(q, m). if q = s then (q, f m) else (q, m)) ug) = map fst ug"
  by (induction ug) auto

lemma update_unknown_present:
  assumes "distinct (map fst ug)" and "s \<in> set (map fst ug)"
    and "\<And>m. set m \<subseteq> set (unknownEntries ug) \<Longrightarrow> mset (f m) = mset m + mset d"
  shows "mset (unknownEntries (map (\<lambda>(q, m). if q = s then (q, f m) else (q, m)) ug))
           = mset (unknownEntries ug) + mset d"
  using assms
proof (induction ug)
  case Nil
  then show ?case by simp
next
  case (Cons x ug)
  obtain t m where x: "x = (t, m)" by (cases x)
  show ?case
  proof (cases "t = s")
    case True
    then have "s \<notin> set (map fst ug)" using Cons.prems x by auto
    then have "map (\<lambda>(q, m). if q = s then (q, f m) else (q, m)) ug = ug"
      by (rule update_unknown_absent)
    moreover have "mset (f m) = mset m + mset d" using Cons.prems(3) x by auto
    ultimately show ?thesis using True x by simp
  next
    case False
    have "mset (unknownEntries (map (\<lambda>(q, m). if q = s then (q, f m) else (q, m)) ug))
           = mset (unknownEntries ug) + mset d"
      using Cons.prems x False by (intro Cons.IH) auto
    then show ?thesis using False x by simp
  qed
qed

lemma update_unknown_nonempty:
  assumes "\<forall>(q, d) \<in> set ug. d \<noteq> []" and "\<And>m. f m \<noteq> []"
  shows "\<forall>(q, d) \<in> set (map (\<lambda>(q, m). if q = s then (q, f m) else (q, m)) ug). d \<noteq> []"
  using assms by (induction ug) (auto split: if_splits)

lemma objInsert_nonempty: "objInsert m k v \<noteq> []"
  by (cases m) (auto split: if_splits)

lemma objSet_nonempty: "k \<noteq> ''__proto__'' \<Longrightarrow> objSet m k v \<noteq> []"
  by (cases m) (auto simp: objSet_def objInsert_nonempty simp del: objInsert.simps)

lemma extractPrefix_proto: "extractPrefix ''__proto__'' = None"
  by (simp add: extractPrefix_def startsWith_def isAlnum_def)

lemma unknownSet_prefix_list:
  "map fst (unknownSet ug pre k v) =
     (if pre \<in> set (map fst ug) then map fst ug else map fst ug @ [pre])"
  unfolding unknownSet_def Let_def update_unknown_keys by simp

lemma unknownSet_nonempty:
  assumes "\<forall>(q, d) \<in> set ug. d \<noteq> []" and "k \<noteq> ''__proto__''"
  shows "\<forall>(q, d) \<in> set (unknownSet ug pre k v). d \<noteq> []"
proof (cases "pre \<in> set (map fst ug)")
  case True
  then have e: "unknownSet ug pre k v =
      map (\<lambda>(q, m). if q = pre then (q, objSet m k v) else (q, m)) ug"
    by (simp add: unknownSet_def)
  show ?thesis
    unfolding e by (rule update_unknown_nonempty [OF assms(1) objSet_nonempty [OF assms(2)]])
next
  case False
  have "map (\<lambda>(q, m). if q = pre then (q, objSet m k v) else (q, m)) ug = ug"
    using False by (rule update_unknown_absent)
  then have e: "unknownSet ug pre k v = ug @ [(pre, objSet [] k v)]"
    using False by (simp add: unknownSet_def)
  show ?thesis
    unfolding e using assms(1) objSet_nonempty [OF assms(2), of "[]" v] by auto
qed

lemma unknownSet_entries:
  assumes "distinct (map fst ug)" and "k \<notin> set (map fst (unknownEntries ug))"
    and "k \<noteq> ''__proto__''"
  shows "mset (unknownEntries (unknownSet ug pre k v)) = add_mset (k, v) (mset (unknownEntries ug))"
proof -
  have f: "\<And>h m. set m \<subseteq> set (unknownEntries h) \<Longrightarrow> unknownEntries h = unknownEntries ug \<Longrightarrow>
      mset (objSet m k v) = mset m + mset [(k, v)]"
  proof -
    fix h m
    assume "set m \<subseteq> set (unknownEntries h)" and "unknownEntries h = unknownEntries ug"
    then have "k \<notin> set (map fst m)" using assms(2) by auto
    then show "mset (objSet m k v) = mset m + mset [(k, v)]"
      using assms(3) by (simp add: objSet_fresh)
  qed
  show ?thesis
  proof (cases "pre \<in> set (map fst ug)")
    case True
    have "\<And>m. set m \<subseteq> set (unknownEntries ug) \<Longrightarrow> mset (objSet m k v) = mset m + mset [(k, v)]"
      using f by blast
    from update_unknown_present [OF assms(1) True this]
    show ?thesis using True by (simp add: unknownSet_def)
  next
    case False
    let ?g = "ug @ [(pre, [])]"
    have d: "distinct (map fst ?g)" using assms(1) False by simp
    have i: "pre \<in> set (map fst ?g)" by simp
    have "\<And>m. set m \<subseteq> set (unknownEntries ?g) \<Longrightarrow> mset (objSet m k v) = mset m + mset [(k, v)]"
      using f [of _ ?g] by simp
    from update_unknown_present [OF d i this]
    show ?thesis using False by (simp add: unknownSet_def)
  qed
qed

text \<open>The second loop: the auto-detection table holds pairwise distinct keys, none of
  them assigned by the first loop and none of them \<open>__proto__\<close>, and no empty group.\<close>

lemma unknownLoop_invariant:
  assumes "distinct (map fst ug)" and "distinct (map fst (unknownEntries ug))"
    and "a = a1 \<union> set (map fst (unknownEntries ug))"
    and "a1 \<inter> set (map fst (unknownEntries ug)) = {}"
    and "set (unknownEntries ug) \<subseteq> S" and "\<forall>(q, d) \<in> set ug. d \<noteq> []"
    and "''__proto__'' \<notin> set (map fst (unknownEntries ug))"
    and "\<And>e. e \<in> set es \<Longrightarrow> classifiable e \<Longrightarrow> e \<in> S"
    and "unknownLoop es (ug, a) = (ug', a')"
  shows "distinct (map fst ug') \<and> distinct (map fst (unknownEntries ug'))
       \<and> a' = a1 \<union> set (map fst (unknownEntries ug'))
       \<and> a1 \<inter> set (map fst (unknownEntries ug')) = {}
       \<and> set (unknownEntries ug') \<subseteq> S \<and> (\<forall>(q, d) \<in> set ug'. d \<noteq> [])
       \<and> ''__proto__'' \<notin> set (map fst (unknownEntries ug'))"
  using assms
proof (induction es arbitrary: ug a)
  case Nil
  then show ?case by auto
next
  case (Cons e es)
  obtain k v where e: "e = (k, v)" by (cases e)
  let ?st = "if k \<in> a \<or> isEmpty v then (ug, a)
        else if k \<in> set skipKeys then (ug, a)
        else if list_ex (\<lambda>p. startsWith k p) skipPrefixes then (ug, a)
        else (case extractPrefix k of
                Some pre \<Rightarrow>
                  if length pre \<ge> 2 then (unknownSet ug pre k v, insert k a)
                  else (ug, a)
              | None \<Rightarrow> (ug, a))"
  have step: "unknownLoop es ?st = (ug', a')"
    using Cons.prems(9) e by simp
  have rest: "\<And>e. e \<in> set es \<Longrightarrow> classifiable e \<Longrightarrow> e \<in> S"
    using Cons.prems by auto
  have "?st = (ug, a) \<or> (\<exists>pre. ?st = (unknownSet ug pre k v, insert k a)
            \<and> k \<notin> a \<and> \<not> isEmpty v \<and> \<not> isSkipped k \<and> extractPrefix k = Some pre)"
    by (auto simp: isSkipped_def split: option.splits)
  then consider (same) "?st = (ug, a)"
    | (added) pre where "?st = (unknownSet ug pre k v, insert k a)" "k \<notin> a" "\<not> isEmpty v"
        "\<not> isSkipped k" "extractPrefix k = Some pre"
    by blast
  then show ?case
  proof cases
    case same
    have "unknownLoop es (ug, a) = (ug', a')" using step same by simp
    from Cons.IH [OF Cons.prems(1,2,3,4,5,6,7) rest this]
    show ?thesis .
  next
    case added
    let ?g = "unknownSet ug pre k v"
    have kp: "k \<noteq> ''__proto__''"
      using added(5) extractPrefix_proto by auto
    have kg: "k \<notin> set (map fst (unknownEntries ug))" and k1: "k \<notin> a1"
      using added(2) Cons.prems(3) by auto
    have ms: "mset (unknownEntries ?g) = add_mset (k, v) (mset (unknownEntries ug))"
      using unknownSet_entries [OF Cons.prems(1) kg kp] .
    then have ks: "mset (map fst (unknownEntries ?g)) = add_mset k (mset (map fst (unknownEntries ug)))"
      by (rule mset_fst_add)
    have d1: "distinct (map fst ?g)"
      using Cons.prems(1) unfolding unknownSet_prefix_list by simp
    have d2: "distinct (map fst (unknownEntries ?g))"
      using ks kg Cons.prems(2) by (rule distinct_from_mset)
    have s1: "set (map fst (unknownEntries ?g)) = insert k (set (map fst (unknownEntries ug)))"
      using ks by (rule set_from_mset)
    have a3: "insert k a = a1 \<union> set (map fst (unknownEntries ?g))"
      using s1 Cons.prems(3) by auto
    have a4: "a1 \<inter> set (map fst (unknownEntries ?g)) = {}"
      using s1 k1 Cons.prems(4) by auto
    have "(k, v) \<in> S"
      using Cons.prems(8) [of "(k, v)"] e added by (simp add: classifiable_def)
    then have s2: "set (unknownEntries ?g) \<subseteq> S"
      using set_from_mset [OF ms] Cons.prems(5) by simp
    have ne: "\<forall>(q, d) \<in> set ?g. d \<noteq> []"
      using Cons.prems(6) kp by (rule unknownSet_nonempty)
    have np: "''__proto__'' \<notin> set (map fst (unknownEntries ?g))"
      using s1 kp Cons.prems(7) by auto
    have "unknownLoop es (?g, insert k a) = (ug', a')" using step added by simp
    from Cons.IH [OF d1 d2 a3 a4 s2 ne np rest this]
    show ?thesis .
  qed
qed

text \<open>Merging the auto-detected groups into the known ones adds their entries, all of
  them, and nothing else.\<close>

lemma mergeUnknown_step:
  assumes "d \<noteq> []" and "\<forall>e \<in> set d. \<not> isEmpty (snd e)"
  shows "mergeUnknown ((pre, d) # ug) g =
     mergeUnknown ug
       (if autoSlug pre \<notin> set (map fst g)
        then g @ [(autoSlug pre, (\<lparr>plugin_slug = autoSlug pre, plugin_name = autoSlug pre,
                     plugin_prefixes = [], plugin_autoDetected = True\<rparr>, d))]
        else map (\<lambda>(t, (q, m)). if t = autoSlug pre then (t, (q, objAssign m d)) else (t, (q, m))) g)"
proof -
  obtain e d' where d: "d = e # d'" using assms(1) by (cases d) auto
  have "\<not> isEmpty (snd e)" using assms(2) d by simp
  then have "length (objKeys d) \<ge> 1 \<and> hasMeaningfulContent d"
    using d by (simp add: objKeys_def hasMeaningfulContent_def)
  then show ?thesis by (simp add: Let_def)
qed

lemma mset_keys_union:
  "mset xs = mset ys + mset d \<Longrightarrow> mset (map fst xs) = mset (map fst ys @ map fst d)"
proof -
  assume "mset xs = mset ys + mset d"
  then have "image_mset fst (mset xs) = image_mset fst (mset ys + mset d)"
    by (simp only:)
  then show ?thesis by simp
qed

lemma mergeUnknown_invariant:
  assumes "distinct (map fst g)"
    and "distinct (map fst (groupEntries g) @ map fst (unknownEntries ug))"
    and "\<forall>(q, d) \<in> set ug. d \<noteq> []" and "\<forall>e \<in> set (unknownEntries ug). \<not> isEmpty (snd e)"
    and "''__proto__'' \<notin> set (map fst (unknownEntries ug))"
  shows "mset (groupEntries (mergeUnknown ug g)) = mset (groupEntries g) + mset (unknownEntries ug)
       \<and> distinct (map fst (mergeUnknown ug g))"
  using assms
proof (induction ug arbitrary: g)
  case Nil
  then show ?case by simp
next
  case (Cons x ug)
  obtain pre d where x: "x = (pre, d)" by (cases x)
  have ue: "unknownEntries (x # ug) = d @ unknownEntries ug"
    unfolding x by simp
  have dne: "d \<noteq> []" using Cons.prems(3) x by simp
  have dv: "\<forall>e \<in> set d. \<not> isEmpty (snd e)" using Cons.prems(4) unfolding ue by simp
  define s where "s = autoSlug pre"
  define g2 where "g2 = (if s \<notin> set (map fst g)
        then g @ [(s, (\<lparr>plugin_slug = s, plugin_name = s, plugin_prefixes = [],
                         plugin_autoDetected = True\<rparr>, d))]
        else map (\<lambda>(t, (q, m)). if t = s then (t, (q, objAssign m d)) else (t, (q, m))) g)"
  have step: "mergeUnknown (x # ug) g = mergeUnknown ug g2"
    unfolding x g2_def s_def using dne dv by (rule mergeUnknown_step)
  have dd: "distinct (map fst d)"
    using Cons.prems(2) unfolding ue by simp
  have dj: "set (map fst d) \<inter> set (map fst (groupEntries g)) = {}"
    using Cons.prems(2) unfolding ue by auto
  have dp: "''__proto__'' \<notin> set (map fst d)"
    using Cons.prems(5) unfolding ue by simp
  have g1: "distinct (map fst g2)"
  proof (cases "s \<in> set (map fst g)")
    case True
    then have e: "g2 = map (\<lambda>(t, (q, m)). if t = s then (t, (q, objAssign m d)) else (t, (q, m))) g"
      unfolding g2_def by simp
    have "map fst g2 = map fst g"
      unfolding e by (rule update_group_slugs)
    then show ?thesis using Cons.prems(1) by simp
  next
    case False
    then have "g2 = g @ [(s, (\<lparr>plugin_slug = s, plugin_name = s, plugin_prefixes = [],
                         plugin_autoDetected = True\<rparr>, d))]"
      unfolding g2_def by simp
    then show ?thesis using Cons.prems(1) False by simp
  qed
  have g2e: "mset (groupEntries g2) = mset (groupEntries g) + mset d"
  proof (cases "s \<in> set (map fst g)")
    case True
    then have e: "g2 = map (\<lambda>(t, (q, m)). if t = s then (t, (q, objAssign m d)) else (t, (q, m))) g"
      unfolding g2_def by simp
    have "\<And>m. set m \<subseteq> set (groupEntries g) \<Longrightarrow> mset (objAssign m d) = mset m + mset d"
    proof -
      fix m :: obj
      assume "set m \<subseteq> set (groupEntries g)"
      then have "set (map fst d) \<inter> set (map fst m) = {}" using dj by auto
      with dd show "mset (objAssign m d) = mset m + mset d"
        using dp by (rule objAssign_fresh)
    qed
    from update_group_present [OF Cons.prems(1) True this]
    show ?thesis unfolding e .
  next
    case False
    then have "g2 = g @ [(s, (\<lparr>plugin_slug = s, plugin_name = s, plugin_prefixes = [],
                         plugin_autoDetected = True\<rparr>, d))]"
      unfolding g2_def by simp
    then show ?thesis by simp
  qed
  have "mset (map fst (groupEntries g2)) = mset (map fst (groupEntries g) @ map fst d)"
    using g2e by (rule mset_keys_union)
  then have "mset (map fst (groupEntries g2) @ map fst (unknownEntries ug))
      = mset (map fst (groupEntries g) @ map fst (unknownEntries (x # ug)))"
    unfolding ue by simp
  from mset_eq_imp_distinct_iff [OF this]
  have g3: "distinct (map fst (groupEntries g2) @ map fst (unknownEntries ug))"
    using Cons.prems(2) by blast
  have g4: "\<forall>(q, d) \<in> set ug. d \<noteq> []"
    using Cons.prems(3) by simp
  have g5: "\<forall>e \<in> set (unknownEntries ug). \<not> isEmpty (snd e)"
    using Cons.prems(4) unfolding ue by simp
  have g6: "''__proto__'' \<notin> set (map fst (unknownEntries ug))"
    using Cons.prems(5) unfolding ue by simp
  have "mset (groupEntries (mergeUnknown ug g2)) = mset (groupEntries g2) + mset (unknownEntries ug)
       \<and> distinct (map fst (mergeUnknown ug g2))"
    using g1 g3 g4 g5 g6 by (rule Cons.IH)
  then show ?case
    unfolding step ue using g2e by simp
qed

lemma objInsert_keys: "set (map fst (objInsert m k v)) = insert k (set (map fst m))"
  using set_from_mset [OF mset_fst_add [OF objInsert_mset]] .

lemma objReplace_keys:
  "map fst (map (\<lambda>(k', v'). if k' = k then (k', v) else (k', v')) m) = map fst m"
  by (induction m) auto

lemma objSet_keys:
  "k \<noteq> ''__proto__'' \<Longrightarrow> set (map fst (objSet m k v)) = insert k (set (map fst m))"
proof (cases "k \<in> set (map fst m)")
  case True
  assume "k \<noteq> ''__proto__''"
  then have "map fst (objSet m k v) = map fst m"
    using True unfolding objSet_def by (simp only: objReplace_keys if_True if_False)
  then show ?thesis using True by auto
next
  case False
  assume "k \<noteq> ''__proto__''"
  then have "objSet m k v = objInsert m k v"
    using False by (simp add: objSet_def)
  then show ?thesis by (simp only: objInsert_keys)
qed

lemma objInsert_entries: "set (objInsert m k v) = insert (k, v) (set m)"
  using set_from_mset [OF objInsert_mset] .

lemma objReplace_entries:
  "set (map (\<lambda>(k', v'). if k' = k then (k', v) else (k', v')) m) \<subseteq> insert (k, v) (set m)"
  by (induction m) auto

lemma objSet_entries: "set (objSet m k v) \<subseteq> insert (k, v) (set m)"
  unfolding objSet_def using objReplace_entries [of k v m] objInsert_entries [of m k v]
  by (simp del: objInsert.simps set_map) blast

lemma looksLike_not_proto: "looksLikePluginMeta k \<Longrightarrow> k \<noteq> ''__proto__''"
  by (auto simp: looksLikePluginMeta_def startsWith_def)

lemma remainingLoop_keys:
  "set (map fst (remainingLoop es a rem)) =
     set (map fst rem) \<union>
       {k. \<exists>v. (k, v) \<in> set es \<and> k \<notin> a \<and> classifiable (k, v) \<and> looksLikePluginMeta k}"
proof (induction es arbitrary: rem)
  case Nil
  then show ?case by simp
next
  case (Cons e es)
  obtain k v where e: "e = (k, v)" by (cases e)
  let ?P = "\<lambda>es k. \<exists>v. (k, v) \<in> set es \<and> k \<notin> a \<and> classifiable (k, v) \<and> looksLikePluginMeta k"
  show ?case
  proof (cases "k \<notin> a \<and> classifiable (k, v) \<and> looksLikePluginMeta k")
    case True
    then have "remainingLoop (e # es) a rem = remainingLoop es a (objSet rem k v)"
      using e by (simp add: classifiable_def isSkipped_def looksLikePluginMeta_def)
    moreover have "{k'. ?P (e # es) k'} = insert k {k'. ?P es k'}"
      using True e by auto
    moreover have "set (map fst (objSet rem k v)) = insert k (set (map fst rem))"
      using True by (intro objSet_keys looksLike_not_proto) simp
    ultimately show ?thesis
      by (simp only: Cons.IH) auto
  next
    case False
    then have "remainingLoop (e # es) a rem = remainingLoop es a rem"
      using e by (auto simp: classifiable_def isSkipped_def looksLikePluginMeta_def)
    moreover have "{k'. ?P (e # es) k'} = {k'. ?P es k'}"
      using False e by auto
    ultimately show ?thesis
      by (simp only: Cons.IH)
  qed
qed

lemma remainingLoop_entries:
  "set rem \<subseteq> S \<Longrightarrow> (\<And>e. e \<in> set es \<Longrightarrow> classifiable e \<Longrightarrow> e \<in> S) \<Longrightarrow>
   set (remainingLoop es a rem) \<subseteq> S"
proof (induction es arbitrary: rem)
  case Nil
  then show ?case by simp
next
  case (Cons e es)
  obtain k v where e: "e = (k, v)" by (cases e)
  have r: "\<And>e. e \<in> set es \<Longrightarrow> classifiable e \<Longrightarrow> e \<in> S"
    using Cons.prems(2) by auto
  show ?case
  proof (cases "k \<notin> a \<and> classifiable (k, v) \<and> looksLikePluginMeta k")
    case True
    then have s: "remainingLoop (e # es) a rem = remainingLoop es a (objSet rem k v)"
      using e by (simp add: classifiable_def isSkipped_def looksLikePluginMeta_def)
    have "(k, v) \<in> S" using Cons.prems(2) [of "(k, v)"] True e by simp
    then have "set (objSet rem k v) \<subseteq> S"
      using Cons.prems(1) objSet_entries [of rem k v] by blast
    then show ?thesis
      unfolding s using r by (rule Cons.IH)
  next
    case False
    then have s: "remainingLoop (e # es) a rem = remainingLoop es a rem"
      using e by (auto simp: classifiable_def isSkipped_def looksLikePluginMeta_def)
    show ?thesis
      unfolding s using Cons.prems(1) r by (rule Cons.IH)
  qed
qed

lemma groupsOf_Cons:
  "groupsOf ((s, q, m) # g) k = (if k \<in> set (map fst m) then s # groupsOf g k else groupsOf g k)"
  by (simp add: groupsOf_def objKeys_def)

lemma groupsOf_iff: "groupsOf g k \<noteq> [] \<longleftrightarrow> k \<in> set (map fst (groupEntries g))"
proof (induction g)
  case Nil
  show ?case by (simp add: groupsOf_def)
next
  case (Cons x g)
  obtain s q m where x: "x = (s, q, m)" by (cases x)
  show ?case
    unfolding x groupsOf_Cons using Cons.IH by (cases "k \<in> set (map fst m)") simp_all
qed

lemma groupsOf_length:
  "distinct (map fst (groupEntries g)) \<Longrightarrow> length (groupsOf g k) \<le> 1"
proof (induction g)
  case Nil
  then show ?case by (simp add: groupsOf_def)
next
  case (Cons x g)
  obtain s q m where x: "x = (s, q, m)" by (cases x)
  have d: "distinct (map fst (groupEntries g))" using Cons.prems x by simp
  show ?case
  proof (cases "k \<in> set (map fst m)")
    case True
    then have "k \<notin> set (map fst (groupEntries g))" using Cons.prems x by auto
    then have "groupsOf g k = []" using groupsOf_iff by blast
    then show ?thesis using x True by (simp add: groupsOf_Cons)
  next
    case False
    then have "groupsOf (x # g) k = groupsOf g k" using x by (simp add: groupsOf_Cons)
    then show ?thesis using Cons.IH [OF d] by simp
  qed
qed

lemma hasMeaningfulContent_nonempty:
  "\<forall>e \<in> set ob. \<not> isEmpty (snd e) \<Longrightarrow> hasMeaningfulContent ob \<longleftrightarrow> ob \<noteq> []"
  by (cases ob) (auto simp: hasMeaningfulContent_def)

lemma groupMetaByPlugin_parts:
  assumes "groupMetaByPlugin meta plugins = (g, r)"
  obtains g1 a1 ug a2 where
    "knownLoop meta (sortPlugins plugins) ([], {}) = (g1, a1)"
    "unknownLoop meta ([], a1) = (ug, a2)"
    "g = mergeUnknown ug g1"
    "r = (if hasMeaningfulContent (remainingLoop meta a2 [])
          then Some (remainingLoop meta a2 []) else None)"
proof -
  obtain g1 a1 where k: "knownLoop meta (sortPlugins plugins) ([], {}) = (g1, a1)"
    by (cases "knownLoop meta (sortPlugins plugins) ([], {})")
  obtain ug a2 where u: "unknownLoop meta ([], a1) = (ug, a2)"
    by (cases "unknownLoop meta ([], a1)")
  have "groupMetaByPlugin meta plugins =
      (mergeUnknown ug g1,
       if hasMeaningfulContent (remainingLoop meta a2 [])
       then Some (remainingLoop meta a2 []) else None)"
    by (simp add: groupMetaByPlugin_def Let_def k u)
  then show ?thesis using assms k u that by simp
qed

text \<open>What the three passes of \<open>groupMetaByPlugin\<close> establish together.\<close>

lemma groupMetaByPlugin_invariant:
  assumes d: "distinct (objKeys meta)" and e: "groupMetaByPlugin meta plugins = (g, r)"
  obtains a2 rem where
    "distinct (map fst g)" "distinct (map fst (groupEntries g))"
    "set (groupEntries g) \<subseteq> {e \<in> set meta. classifiable e}"
    "set (map fst (groupEntries g)) \<subseteq> a2"
    "a2 \<subseteq> insert ''__proto__'' (set (map fst (groupEntries g)))"
    "set rem \<subseteq> {e \<in> set meta. classifiable e}"
    "set (map fst rem) =
       {k. \<exists>v. (k, v) \<in> set meta \<and> k \<notin> a2 \<and> classifiable (k, v) \<and> looksLikePluginMeta k}"
    "r = (if rem \<noteq> [] then Some rem else None)"
proof -
  let ?S = "{e \<in> set meta. classifiable e}"
  from e obtain g1 a1 ug a2 where
    k: "knownLoop meta (sortPlugins plugins) ([], {}) = (g1, a1)"
    and u: "unknownLoop meta ([], a1) = (ug, a2)"
    and g: "g = mergeUnknown ug g1"
    and r: "r = (if hasMeaningfulContent (remainingLoop meta a2 [])
          then Some (remainingLoop meta a2 []) else None)"
    by (rule groupMetaByPlugin_parts)
  have dm: "distinct (map fst meta)" using d by (simp add: objKeys_def)
  have inS: "\<And>e. e \<in> set meta \<Longrightarrow> classifiable e \<Longrightarrow> e \<in> ?S" by simp
  have i1: "distinct (map fst g1) \<and> distinct (map fst (groupEntries g1))
       \<and> set (map fst (groupEntries g1)) \<subseteq> a1
       \<and> a1 \<subseteq> insert ''__proto__'' (set (map fst (groupEntries g1)))
       \<and> set (groupEntries g1) \<subseteq> ?S"
    by (rule knownLoop_invariant [OF dm _ _ _ _ _ _ inS k]) simp_all
  have i2: "distinct (map fst ug) \<and> distinct (map fst (unknownEntries ug))
       \<and> a2 = a1 \<union> set (map fst (unknownEntries ug))
       \<and> a1 \<inter> set (map fst (unknownEntries ug)) = {}
       \<and> set (unknownEntries ug) \<subseteq> ?S \<and> (\<forall>(q, d) \<in> set ug. d \<noteq> [])
       \<and> ''__proto__'' \<notin> set (map fst (unknownEntries ug))"
    by (rule unknownLoop_invariant [OF _ _ _ _ _ _ _ inS u]) simp_all
  have "set (map fst (groupEntries g1)) \<inter> set (map fst (unknownEntries ug)) = {}"
    using i1 i2 by blast
  then have dj: "distinct (map fst (groupEntries g1) @ map fst (unknownEntries ug))"
    using i1 i2 by simp
  have ne: "\<forall>e \<in> set (unknownEntries ug). \<not> isEmpty (snd e)"
    using i2 by (auto simp: classifiable_def)
  have i3: "mset (groupEntries g) = mset (groupEntries g1) + mset (unknownEntries ug)
       \<and> distinct (map fst g)"
    unfolding g using i1 i2 dj ne by (intro mergeUnknown_invariant) simp_all
  then have ms: "mset (groupEntries g) = mset (groupEntries g1 @ unknownEntries ug)"
    by simp
  have se: "set (groupEntries g) = set (groupEntries g1) \<union> set (unknownEntries ug)"
    using mset_eq_setD [OF ms] by simp
  have mk: "mset (map fst (groupEntries g))
      = mset (map fst (groupEntries g1) @ map fst (unknownEntries ug))"
    using i3 by (intro mset_keys_union) simp
  have sk: "set (map fst (groupEntries g))
      = set (map fst (groupEntries g1)) \<union> set (map fst (unknownEntries ug))"
    using mset_eq_setD [OF mk] by simp
  have c1: "distinct (map fst g)" using i3 by simp
  have c2: "distinct (map fst (groupEntries g))"
    using mset_eq_imp_distinct_iff [OF mk] dj by blast
  have c3: "set (groupEntries g) \<subseteq> ?S"
    unfolding se using i1 i2 by blast
  have c4: "set (map fst (groupEntries g)) \<subseteq> a2"
    unfolding sk using i1 i2 by blast
  have c5: "a2 \<subseteq> insert ''__proto__'' (set (map fst (groupEntries g)))"
    unfolding sk using i1 i2 by blast
  let ?rem = "remainingLoop meta a2 []"
  have c6: "set ?rem \<subseteq> ?S"
    by (rule remainingLoop_entries [OF _ inS]) simp_all
  have c7: "set (map fst ?rem) =
       {k. \<exists>v. (k, v) \<in> set meta \<and> k \<notin> a2 \<and> classifiable (k, v) \<and> looksLikePluginMeta k}"
    by (simp only: remainingLoop_keys) simp
  have "\<forall>e \<in> set ?rem. \<not> isEmpty (snd e)"
    using c6 by (auto simp: classifiable_def)
  then have "hasMeaningfulContent ?rem \<longleftrightarrow> ?rem \<noteq> []"
    by (rule hasMeaningfulContent_nonempty)
  then have c8: "r = (if ?rem \<noteq> [] then Some ?rem else None)"
    using r by simp
  show ?thesis
    using that [OF c1 c2 c3 c4 c5 c6 c7 c8] .
qed

lemma inRemaining_iff:
  "inRemaining (if rem \<noteq> [] then Some rem else None) k \<longleftrightarrow> k \<in> set (map fst rem)"
  by (cases rem) (simp_all add: inRemaining_def objKeys_def)

text \<open>
  C2.  For a bag with pairwise distinct keys (the entries of an object) and any list of
  plugin descriptors, in the result of \<open>groupMetaByPlugin\<close>: the groups have pairwise
  distinct slugs; no key occurs twice in the groups, be it in two groups or in one; a key
  is in at most one place among the groups and the remainder; a key that is reserved (on
  the skip list or with a reserved prefix) is in no group and not in the remainder; every
  entry of a group or of the remainder is an entry of the bag, with its value, that is
  neither empty nor reserved; and a key of the bag that is in no group and not in the
  remainder has an empty value, is reserved, or does not look like plugin metadata (it
  has no underscore or starts with one).
\<close>

theorem classifier_exclusive:
  assumes d: "distinct (objKeys meta)" and e: "groupMetaByPlugin meta plugins = (g, r)"
  shows "distinct (map fst g)
       \<and> distinct (map fst (groupEntries g))
       \<and> (\<forall>key. length (groupsOf g key) + (if inRemaining r key then 1 else 0) \<le> 1)
       \<and> (\<forall>key. isSkipped key \<longrightarrow> groupsOf g key = [] \<and> \<not> inRemaining r key)
       \<and> (\<forall>k v. (k, v) \<in> set (groupEntries g) \<or> (\<exists>rem. r = Some rem \<and> (k, v) \<in> set rem) \<longrightarrow>
              (k, v) \<in> set meta \<and> \<not> isEmpty v \<and> \<not> isSkipped k)
       \<and> (\<forall>k v. (k, v) \<in> set meta \<and> groupsOf g k = [] \<and> \<not> inRemaining r k \<longrightarrow>
              isEmpty v \<or> isSkipped k \<or> \<not> looksLikePluginMeta k)"
proof -
  let ?S = "{e \<in> set meta. classifiable e}"
  from d e obtain a2 rem where
    c1: "distinct (map fst g)" and c2: "distinct (map fst (groupEntries g))"
    and c3: "set (groupEntries g) \<subseteq> ?S"
    and c4: "set (map fst (groupEntries g)) \<subseteq> a2"
    and c5: "a2 \<subseteq> insert ''__proto__'' (set (map fst (groupEntries g)))"
    and c6: "set rem \<subseteq> ?S"
    and c7: "set (map fst rem) =
       {k. \<exists>v. (k, v) \<in> set meta \<and> k \<notin> a2 \<and> classifiable (k, v) \<and> looksLikePluginMeta k}"
    and c8: "r = (if rem \<noteq> [] then Some rem else None)"
    by (rule groupMetaByPlugin_invariant)
  have ir: "\<And>k. inRemaining r k \<longleftrightarrow> k \<in> set (map fst rem)"
    unfolding c8 by (rule inRemaining_iff)
  have go: "\<And>k. groupsOf g k = [] \<longleftrightarrow> k \<notin> set (map fst (groupEntries g))"
    using groupsOf_iff by blast
  have p3: "\<forall>key. length (groupsOf g key) + (if inRemaining r key then 1 else 0) \<le> 1"
  proof
    fix key
    show "length (groupsOf g key) + (if inRemaining r key then 1 else 0) \<le> 1"
    proof (cases "inRemaining r key")
      case True
      then have "key \<notin> a2" using ir c7 by auto
      then have "groupsOf g key = []" using go c4 by auto
      then show ?thesis by simp
    next
      case False
      then show ?thesis using groupsOf_length [OF c2, of key] by simp
    qed
  qed
  have p4: "\<forall>key. isSkipped key \<longrightarrow> groupsOf g key = [] \<and> \<not> inRemaining r key"
  proof (intro allI impI conjI)
    fix key
    assume s: "isSkipped key"
    show "groupsOf g key = []"
    proof (rule ccontr)
      assume "groupsOf g key \<noteq> []"
      then obtain v where "(key, v) \<in> set (groupEntries g)" using go by fastforce
      then have "classifiable (key, v)" using c3 by blast
      then show False using s by (simp add: classifiable_def)
    qed
    show "\<not> inRemaining r key"
    proof
      assume "inRemaining r key"
      then obtain v where "(key, v) \<in> set rem" using ir by fastforce
      then have "classifiable (key, v)" using c6 by blast
      then show False using s by (simp add: classifiable_def)
    qed
  qed
  have p5: "\<forall>k v. (k, v) \<in> set (groupEntries g) \<or> (\<exists>rem. r = Some rem \<and> (k, v) \<in> set rem) \<longrightarrow>
              (k, v) \<in> set meta \<and> \<not> isEmpty v \<and> \<not> isSkipped k"
  proof (intro allI impI)
    fix k v
    assume "(k, v) \<in> set (groupEntries g) \<or> (\<exists>rem. r = Some rem \<and> (k, v) \<in> set rem)"
    then have "(k, v) \<in> ?S"
      using c3 c6 c8 by (auto split: if_splits)
    then show "(k, v) \<in> set meta \<and> \<not> isEmpty v \<and> \<not> isSkipped k"
      by (simp add: classifiable_def)
  qed
  have p6: "\<forall>k v. (k, v) \<in> set meta \<and> groupsOf g k = [] \<and> \<not> inRemaining r k \<longrightarrow>
              isEmpty v \<or> isSkipped k \<or> \<not> looksLikePluginMeta k"
  proof (intro allI impI)
    fix k v
    assume a: "(k, v) \<in> set meta \<and> groupsOf g k = [] \<and> \<not> inRemaining r k"
    show "isEmpty v \<or> isSkipped k \<or> \<not> looksLikePluginMeta k"
    proof (rule ccontr)
      assume "\<not> (isEmpty v \<or> isSkipped k \<or> \<not> looksLikePluginMeta k)"
      then have cl: "classifiable (k, v)" and ll: "looksLikePluginMeta k"
        by (simp_all add: classifiable_def)
      have "k \<notin> set (map fst rem)" using a ir by simp
      then have "k \<in> a2" using c7 a cl ll by blast
      moreover have "k \<noteq> ''__proto__''" using ll by (rule looksLike_not_proto)
      ultimately have "k \<in> set (map fst (groupEntries g))" using c5 by blast
      then show False using a go by simp
    qed
  qed
  show ?thesis using c1 c2 p3 p4 p5 p6 by blast
qed


lemma sampleMeta_grouped:
  "groupMetaByPlugin sampleMeta [seoPlugin, seoProPlugin] =
     ([(''seo-pro'', seoProPlugin, [(''seo_pro_title'', JStr ''P'')]),
       (''seo'', seoPlugin, [(''seo_title'', JStr ''S'')]),
       (''acme'', \<lparr>plugin_slug = ''acme'', plugin_name = ''acme'', plugin_prefixes = [],
                    plugin_autoDetected = True\<rparr>, [(''acme_color'', JStr ''red'')])],
      Some [(''x_note'', JStr ''n'')])"
  by code_simp

theorem classifier_exclusive_witness:
  "distinct (objKeys sampleMeta)
   \<and> groupMetaByPlugin sampleMeta [seoPlugin, seoProPlugin] =
       ([(''seo-pro'', seoProPlugin, [(''seo_pro_title'', JStr ''P'')]),
         (''seo'', seoPlugin, [(''seo_title'', JStr ''S'')]),
         (''acme'', \<lparr>plugin_slug = ''acme'', plugin_name = ''acme'', plugin_prefixes = [],
                      plugin_autoDetected = True\<rparr>, [(''acme_color'', JStr ''red'')])],
        Some [(''x_note'', JStr ''n'')])
   \<and> distinct (map fst (groupEntries (fst (groupMetaByPlugin sampleMeta [seoPlugin, seoProPlugin]))))
   \<and> isSkipped ''_edit_lock''
   \<and> groupsOf (fst (groupMetaByPlugin sampleMeta [seoPlugin, seoProPlugin])) ''_edit_lock'' = []
   \<and> \<not> inRemaining (snd (groupMetaByPlugin sampleMeta [seoPlugin, seoProPlugin])) ''_edit_lock''
   \<and> length (groupsOf (fst (groupMetaByPlugin sampleMeta [seoPlugin, seoProPlugin])) ''x_note'')
       + (if inRemaining (snd (groupMetaByPlugin sampleMeta [seoPlugin, seoProPlugin])) ''x_note''
          then 1 else 0) \<le> 1"
proof -
  have d: "distinct (objKeys sampleMeta)"
    by (simp add: sampleMeta_def objKeys_def)
  have s: "isSkipped ''_edit_lock''"
    by (simp add: isSkipped_def skipPrefixes_def startsWith_def)
  note t = classifier_exclusive [OF d sampleMeta_grouped]
  from t s have "groupsOf [(''seo-pro'', seoProPlugin, [(''seo_pro_title'', JStr ''P'')]),
         (''seo'', seoPlugin, [(''seo_title'', JStr ''S'')]),
         (''acme'', \<lparr>plugin_slug = ''acme'', plugin_name = ''acme'', plugin_prefixes = [],
                      plugin_autoDetected = True\<rparr>, [(''acme_color'', JStr ''red'')])]
       ''_edit_lock'' = []
     \<and> \<not> inRemaining (Some [(''x_note'', JStr ''n'')]) ''_edit_lock''"
    by blast
  moreover from t have "distinct (map fst (groupEntries
        [(''seo-pro'', seoProPlugin, [(''seo_pro_title'', JStr ''P'')]),
         (''seo'', seoPlugin, [(''seo_title'', JStr ''S'')]),
         (''acme'', \<lparr>plugin_slug = ''acme'', plugin_name = ''acme'', plugin_prefixes = [],
                      plugin_autoDetected = True\<rparr>, [(''acme_color'', JStr ''red'')])]))"
    by blast
  moreover from t have "length (groupsOf
        [(''seo-pro'', seoProPlugin, [(''seo_pro_title'', JStr ''P'')]),
         (''seo'', seoPlugin, [(''seo_title'', JStr ''S'')]),
         (''acme'', \<lparr>plugin_slug = ''acme'', plugin_name = ''acme'', plugin_prefixes = [],
                      plugin_autoDetected = True\<rparr>, [(''acme_color'', JStr ''red'')])] ''x_note'')
       + (if inRemaining (Some [(''x_note'', JStr ''n'')]) ''x_note'' then 1 else 0) \<le> 1"
    by blast
  ultimately show ?thesis
    using d s by (simp only: sampleMeta_grouped fst_conv snd_conv) simp
qed

section \<open>Order of the descriptors\<close>

lemma comparePlugins_rank: "comparePlugins p q \<le> 0 \<longleftrightarrow> prefixRank q \<le> prefixRank p"
  by (simp add: comparePlugins_def prefixRank_def split: option.splits)

lemma insortPlugin_insort_key:
  "insortPlugin x ys = insort_key (\<lambda>p. - int (prefixRank p)) x ys"
  by (induction ys) (simp_all add: comparePlugins_rank)

lemma sortPlugins_sort_key: "sortPlugins ps = sort_key (\<lambda>p. - int (prefixRank p)) ps"
  by (induction ps) (simp_all add: sortPlugins_def insortPlugin_insort_key)

lemma mset_sortPlugins: "mset (sortPlugins ps) = mset ps"
  by (simp add: sortPlugins_sort_key)

lemma sorted_sortPlugins: "sorted_wrt (\<lambda>p q. prefixRank q \<le> prefixRank p) (sortPlugins ps)"
proof -
  have "sorted (map (\<lambda>p. - int (prefixRank p)) (sortPlugins ps))"
    unfolding sortPlugins_sort_key by (rule sorted_sort_key)
  then show ?thesis
    by (simp add: sorted_map)
qed

lemma stable_sortPlugins:
  "filter (\<lambda>q. prefixRank q = n) (sortPlugins ps) = filter (\<lambda>q. prefixRank q = n) ps"
proof -
  have "filter (\<lambda>q. - int (prefixRank q) = - int n) (sort_key (\<lambda>p. - int (prefixRank p)) ps)
      = filter (\<lambda>q. - int (prefixRank q) = - int n) ps"
    by (rule sort_key_stable)
  then show ?thesis
    by (simp add: sortPlugins_sort_key)
qed

lemma maxPrefixLength_Max:
  "plugin_prefixes p \<noteq> [] \<Longrightarrow> maxPrefixLength p = Some (Max (length ` set (plugin_prefixes p)))"
proof -
  assume "plugin_prefixes p \<noteq> []"
  then obtain x xs where e: "plugin_prefixes p = x # xs" by (cases "plugin_prefixes p") auto
  have "(\<lambda>(n::nat) s. max s n) = max"
    by (intro ext) (rule max.commute)
  then have "foldl max (length x) (map length xs) = Max (set (length x # map length xs))"
    by (simp only: Max.set_eq_fold foldl_conv_fold)
  then show ?thesis
    by (simp add: maxPrefixLength_def e)
qed

section \<open>Where a matched key goes\<close>

lemma groupsOf_append: "groupsOf (g @ h) k = groupsOf g k @ groupsOf h k"
  by (simp add: groupsOf_def)

lemma groupsOf_mem:
  "s \<in> set (groupsOf g k) \<longleftrightarrow> (\<exists>q m. (s, q, m) \<in> set g \<and> k \<in> set (map fst m))"
proof (induction g)
  case Nil
  show ?case by (simp add: groupsOf_def)
next
  case (Cons x g)
  obtain s' q' m' where x: "x = (s', q', m')" by (cases x)
  show ?case
    unfolding x groupsOf_Cons using Cons.IH by (auto simp del: set_map)
qed


lemma objSet_keeps: "set (map fst m) \<subseteq> set (map fst (objSet m k v))"
proof (cases "k = ''__proto__''")
  case True
  then show ?thesis by simp
next
  case False
  show ?thesis using objSet_keys [OF False, of m v] by blast
qed

lemma objSet_has: "k \<noteq> ''__proto__'' \<Longrightarrow> k \<in> set (map fst (objSet m k v))"
  using objSet_keys [of k m v] by blast

lemma objAssign_keeps: "set (map fst m) \<subseteq> set (map fst (objAssign m d))"
proof (induction d arbitrary: m)
  case Nil
  show ?case by (simp add: objAssign_def)
next
  case (Cons e d)
  obtain k v where e: "e = (k, v)" by (cases e)
  show ?case
    unfolding e objAssign_Cons using objSet_keeps [of m k v] Cons.IH [of "objSet m k v"]
    by (rule subset_trans)
qed

lemma update_group_mem:
  "(s, q, m) \<in> set g \<Longrightarrow>
   (s, q, if s = t then f m else m)
     \<in> set (map (\<lambda>(t', (q, m)). if t' = t then (t', (q, f m)) else (t', (q, m))) g)"
  by (induction g) auto

lemma addToGroup_keeps:
  assumes "s \<in> set (groupsOf g k)"
  shows "s \<in> set (groupsOf (addToGroup g p k' v') k)"
proof -
  from assms obtain q m where m: "(s, q, m) \<in> set g" "k \<in> set (map fst m)"
    unfolding groupsOf_mem by blast
  let ?g = "if plugin_slug p \<in> set (map fst g) then g else g @ [(plugin_slug p, (p, []))]"
  let ?m = "if s = plugin_slug p then objSet m k' v' else m"
  have "(s, q, m) \<in> set ?g" using m(1) by simp
  then have "(s, q, ?m) \<in> set (addToGroup g p k' v')"
    unfolding addToGroup_def Let_def by (rule update_group_mem)
  moreover have "k \<in> set (map fst ?m)"
    using m(2) objSet_keeps [of m k' v'] by auto
  ultimately show ?thesis
    unfolding groupsOf_mem by blast
qed

lemma addToGroup_has:
  assumes "k \<noteq> ''__proto__''"
  shows "plugin_slug p \<in> set (groupsOf (addToGroup g p k v) k)"
proof -
  let ?g = "if plugin_slug p \<in> set (map fst g) then g else g @ [(plugin_slug p, (p, []))]"
  have "plugin_slug p \<in> set (map fst ?g)" by simp
  then obtain q m where m: "(plugin_slug p, q, m) \<in> set ?g" by fastforce
  have "(plugin_slug p, q, if plugin_slug p = plugin_slug p then objSet m k v else m)
      \<in> set (addToGroup g p k v)"
    unfolding addToGroup_def Let_def using m by (rule update_group_mem)
  then have "(plugin_slug p, q, objSet m k v) \<in> set (addToGroup g p k v)" by simp
  moreover have "k \<in> set (map fst (objSet m k v))"
    using assms by (rule objSet_has)
  ultimately show ?thesis
    unfolding groupsOf_mem by blast
qed

lemma matchPlugins_cases_any:
  "matchPlugins k v sps (g, a) = (g, a)
     \<or> (\<exists>p. matchPlugins k v sps (g, a) = (addToGroup g p k v, insert k a))"
  by (induction sps) auto

lemma knownLoop_step_cases:
  "(if isEmpty v then (g, a)
    else if k \<in> set skipKeys then (g, a)
    else if list_ex (\<lambda>p. startsWith k p) skipPrefixes then (g, a)
    else matchPlugins k v sps (g, a)) = (g, a)
   \<or> (\<exists>p. (if isEmpty v then (g, a)
    else if k \<in> set skipKeys then (g, a)
    else if list_ex (\<lambda>p. startsWith k p) skipPrefixes then (g, a)
    else matchPlugins k v sps (g, a)) = (addToGroup g p k v, insert k a))"
  using matchPlugins_cases_any [of k v sps g a] by auto

lemma knownLoop_keeps:
  "s \<in> set (groupsOf g k) \<Longrightarrow> knownLoop es sps (g, a) = (g', a') \<Longrightarrow> s \<in> set (groupsOf g' k)"
proof (induction es arbitrary: g a)
  case Nil
  then show ?case by simp
next
  case (Cons e es)
  obtain k' v' where e: "e = (k', v')" by (cases e)
  let ?st = "if isEmpty v' then (g, a)
    else if k' \<in> set skipKeys then (g, a)
    else if list_ex (\<lambda>p. startsWith k' p) skipPrefixes then (g, a)
    else matchPlugins k' v' sps (g, a)"
  have step: "knownLoop es sps ?st = (g', a')"
    using Cons.prems(2) e by simp
  from knownLoop_step_cases [of v' g a k' sps]
  consider (same) "?st = (g, a)" | (added) p where "?st = (addToGroup g p k' v', insert k' a)"
    by blast
  then show ?case
  proof cases
    case same
    then have "knownLoop es sps (g, a) = (g', a')" using step by simp
    with Cons.prems(1) show ?thesis by (rule Cons.IH)
  next
    case added
    then have "knownLoop es sps (addToGroup g p k' v', insert k' a) = (g', a')"
      using step by simp
    with addToGroup_keeps [OF Cons.prems(1)] show ?thesis by (rule Cons.IH)
  qed
qed

text \<open>The first loop gives a key that passes the tests to the first descriptor, in the
  order tried, that has a matching prefix.\<close>

lemma knownLoop_assigns:
  assumes "distinct (map fst es)" and "(k, v) \<in> set es" and "k \<notin> a"
    and "\<not> isEmpty v" and "\<not> isSkipped k" and "k \<noteq> ''__proto__''"
    and "find (\<lambda>p. list_ex (matchesPrefix k) (plugin_prefixes p)) sps = Some p"
    and "knownLoop es sps (g, a) = (g', a')"
  shows "plugin_slug p \<in> set (groupsOf g' k)"
  using assms(1,2,3,8)
proof (induction es arbitrary: g a)
  case Nil
  then show ?case by simp
next
  case (Cons e es)
  obtain k' v' where e: "e = (k', v')" by (cases e)
  let ?st = "if isEmpty v' then (g, a)
    else if k' \<in> set skipKeys then (g, a)
    else if list_ex (\<lambda>p. startsWith k' p) skipPrefixes then (g, a)
    else matchPlugins k' v' sps (g, a)"
  have step: "knownLoop es sps ?st = (g', a')"
    using Cons.prems(4) e by simp
  show ?case
  proof (cases "k' = k")
    case True
    then have "v' = v" using Cons.prems(1,2) e by (auto simp: image_iff)
    then have "?st = (addToGroup g p k v, insert k a)"
      using True assms(4,5,7) Cons.prems(3)
      by (simp add: isSkipped_def matchPlugins_fresh)
    then have "knownLoop es sps (addToGroup g p k v, insert k a) = (g', a')"
      using step by simp
    with addToGroup_has [OF assms(6)] show ?thesis by (rule knownLoop_keeps)
  next
    case False
    then have in_es: "(k, v) \<in> set es" using Cons.prems(2) e by simp
    have d: "distinct (map fst es)" using Cons.prems(1) by simp
    from knownLoop_step_cases [of v' g a k' sps]
    consider (same) "?st = (g, a)" | (added) q where "?st = (addToGroup g q k' v', insert k' a)"
      by blast
    then show ?thesis
    proof cases
      case same
      then have "knownLoop es sps (g, a) = (g', a')" using step by simp
      with d in_es Cons.prems(3) show ?thesis by (rule Cons.IH)
    next
      case added
      then have s: "knownLoop es sps (addToGroup g q k' v', insert k' a) = (g', a')"
        using step by simp
      have "k \<notin> insert k' a" using False Cons.prems(3) by simp
      with d in_es show ?thesis using s by (rule Cons.IH)
    qed
  qed
qed

lemma mergeUnknown_keeps:
  "s \<in> set (groupsOf g k) \<Longrightarrow> s \<in> set (groupsOf (mergeUnknown ug g) k)"
proof (induction ug arbitrary: g)
  case Nil
  then show ?case by simp
next
  case (Cons x ug)
  obtain pre d where x: "x = (pre, d)" by (cases x)
  from Cons.prems obtain q m where m: "(s, q, m) \<in> set g" "k \<in> set (map fst m)"
    unfolding groupsOf_mem by blast
  let ?t = "autoSlug pre"
  let ?m = "if s = ?t then objAssign m d else m"
  have km: "k \<in> set (map fst ?m)"
    using m(2) objAssign_keeps [of m d] by auto
  have a1: "s \<in> set (groupsOf (g @ [(?t, (\<lparr>plugin_slug = ?t, plugin_name = ?t, plugin_prefixes = [],
                                 plugin_autoDetected = True\<rparr>, d))]) k)"
    using Cons.prems by (simp add: groupsOf_append)
  have "(s, q, ?m) \<in> set (map (\<lambda>(t, (q, m)). if t = ?t then (t, (q, objAssign m d)) else (t, (q, m))) g)"
    using m(1) by (rule update_group_mem)
  then have a2: "s \<in> set (groupsOf (map (\<lambda>(t, (q, m)). if t = ?t then (t, (q, objAssign m d)) else (t, (q, m))) g) k)"
    unfolding groupsOf_mem using km by blast
  show ?case
  proof (cases "length (objKeys d) \<ge> 1 \<and> hasMeaningfulContent d")
    case False
    then have "mergeUnknown (x # ug) g = mergeUnknown ug g"
      unfolding x by auto
    then show ?thesis using Cons.IH [OF Cons.prems] by simp
  next
    case True
    show ?thesis
    proof (cases "?t \<in> set (map fst g)")
      case False
      then have "mergeUnknown (x # ug) g =
          mergeUnknown ug (g @ [(?t, (\<lparr>plugin_slug = ?t, plugin_name = ?t, plugin_prefixes = [],
                                 plugin_autoDetected = True\<rparr>, d))])"
        unfolding x using True by (auto simp: Let_def)
      then show ?thesis using Cons.IH [OF a1] by simp
    next
      case inn: True
      then have "mergeUnknown (x # ug) g =
          mergeUnknown ug (map (\<lambda>(t, (q, m)). if t = ?t then (t, (q, objAssign m d)) else (t, (q, m))) g)"
        unfolding x using True by (auto simp: Let_def)
      then show ?thesis using Cons.IH [OF a2] by simp
    qed
  qed
qed

lemma seo_pro_title_find:
  assumes "plugin_prefixes a = [''seo'']" and "plugin_prefixes b = [''seo_pro'']"
  shows "find (\<lambda>p. list_ex (matchesPrefix ''seo_pro_title'') (plugin_prefixes p)) [b, a] = Some b"
  using assms by (simp add: matchesPrefix_def prefixPatterns_def startsWith_def)

lemma seo_pro_sorted:
  assumes "plugin_prefixes a = [''seo'']" and "plugin_prefixes b = [''seo_pro'']"
    and "plugins = [a, b] \<or> plugins = [b, a]"
  shows "sortPlugins plugins = [b, a]"
  using assms by (auto simp: sortPlugins_def comparePlugins_def maxPrefixLength_def)

lemma seo_pro_title_plain:
  "\<not> isSkipped ''seo_pro_title''" "''seo_pro_title'' \<noteq> ''__proto__''"
  by (simp_all add: isSkipped_def skipKeys_def skipPrefixes_def startsWith_def)

lemma distinct_keys_value:
  "distinct (map fst es) \<Longrightarrow> (k, v) \<in> set es \<Longrightarrow> (k, w) \<in> set es \<Longrightarrow> v = w"
  by (induction es) (auto simp: image_iff)

text \<open>
  C4.  The descriptors are tried in the order of \<open>sortPlugins\<close>: a rearrangement of the
  given list in which no descriptor comes after one with a shorter longest prefix
  (\<open>prefixRank\<close> is one more than the length of the longest prefix, and 0 for a descriptor
  without prefixes), descriptors of equal rank keeping their input order; a key that is
  not yet assigned goes to the first descriptor in that order that has a matching prefix.
  In particular, for a descriptor \<open>a\<close> whose only prefix is \<open>seo\<close> and a descriptor \<open>b\<close> whose
  only prefix is \<open>seo_pro\<close>, given in either order, \<open>b\<close> is tried first; a bag that holds
  only the key \<open>seo_pro_title\<close>, with a value that is not empty, yields the one group of \<open>b\<close>
  with that key; and in any bag with pairwise distinct keys, the key \<open>seo_pro_title\<close> is in
  the group of the slug of \<open>b\<close>, in no other group, and not in the remainder, unless its
  value is empty, in which case it is in no group and not in the remainder.
\<close>

theorem classifier_priority:
  "mset (sortPlugins ps) = mset ps
   \<and> sorted_wrt (\<lambda>p q. prefixRank q \<le> prefixRank p) (sortPlugins ps)
   \<and> filter (\<lambda>q. prefixRank q = n) (sortPlugins ps) = filter (\<lambda>q. prefixRank q = n) ps
   \<and> (plugin_prefixes p \<noteq> [] \<longrightarrow> prefixRank p = Suc (Max (length ` set (plugin_prefixes p))))
   \<and> (key \<notin> assigned \<longrightarrow>
        matchPlugins key w (sortPlugins ps) (g0, assigned) =
          (case find (\<lambda>p. list_ex (matchesPrefix key) (plugin_prefixes p)) (sortPlugins ps) of
             None \<Rightarrow> (g0, assigned)
           | Some p \<Rightarrow> (addToGroup g0 p key w, insert key assigned)))
   \<and> (plugin_prefixes a = [''seo''] \<and> plugin_prefixes b = [''seo_pro'']
        \<and> (plugins = [a, b] \<or> plugins = [b, a]) \<longrightarrow>
        sortPlugins plugins = [b, a]
        \<and> groupMetaByPlugin [(''seo_pro_title'', v)] plugins
            = (if isEmpty v then ([], None)
               else ([(plugin_slug b, (b, [(''seo_pro_title'', v)]))], None))
        \<and> (distinct (objKeys meta) \<and> (''seo_pro_title'', v) \<in> set meta
             \<and> groupMetaByPlugin meta plugins = (g, r) \<longrightarrow>
             groupsOf g ''seo_pro_title'' = (if isEmpty v then [] else [plugin_slug b])
             \<and> \<not> inRemaining r ''seo_pro_title''))"
proof -
  have s1: "mset (sortPlugins ps) = mset ps"
    by (rule mset_sortPlugins)
  have s2: "sorted_wrt (\<lambda>p q. prefixRank q \<le> prefixRank p) (sortPlugins ps)"
    by (rule sorted_sortPlugins)
  have s3: "filter (\<lambda>q. prefixRank q = n) (sortPlugins ps) = filter (\<lambda>q. prefixRank q = n) ps"
    by (rule stable_sortPlugins)
  have s4: "plugin_prefixes p \<noteq> [] \<longrightarrow> prefixRank p = Suc (Max (length ` set (plugin_prefixes p)))"
    by (simp add: prefixRank_def maxPrefixLength_Max)
  have s5: "key \<notin> assigned \<longrightarrow>
        matchPlugins key w (sortPlugins ps) (g0, assigned) =
          (case find (\<lambda>p. list_ex (matchesPrefix key) (plugin_prefixes p)) (sortPlugins ps) of
             None \<Rightarrow> (g0, assigned)
           | Some p \<Rightarrow> (addToGroup g0 p key w, insert key assigned))"
    by (simp add: matchPlugins_fresh)
  have s6: "plugin_prefixes a = [''seo''] \<and> plugin_prefixes b = [''seo_pro'']
        \<and> (plugins = [a, b] \<or> plugins = [b, a]) \<longrightarrow>
        sortPlugins plugins = [b, a]
        \<and> groupMetaByPlugin [(''seo_pro_title'', v)] plugins
            = (if isEmpty v then ([], None)
               else ([(plugin_slug b, (b, [(''seo_pro_title'', v)]))], None))
        \<and> (distinct (objKeys meta) \<and> (''seo_pro_title'', v) \<in> set meta
             \<and> groupMetaByPlugin meta plugins = (g, r) \<longrightarrow>
             groupsOf g ''seo_pro_title'' = (if isEmpty v then [] else [plugin_slug b])
             \<and> \<not> inRemaining r ''seo_pro_title'')"
  proof (intro impI)
    assume h: "plugin_prefixes a = [''seo''] \<and> plugin_prefixes b = [''seo_pro'']
        \<and> (plugins = [a, b] \<or> plugins = [b, a])"
    then have pa: "plugin_prefixes a = [''seo'']" and pb: "plugin_prefixes b = [''seo_pro'']"
      and pl: "plugins = [a, b] \<or> plugins = [b, a]"
      by simp_all
    have so: "sortPlugins plugins = [b, a]"
      using pa pb pl by (rule seo_pro_sorted)
    have fi: "find (\<lambda>p. list_ex (matchesPrefix ''seo_pro_title'') (plugin_prefixes p))
        (sortPlugins plugins) = Some b"
      unfolding so using pa pb by (rule seo_pro_title_find)
    have t1: "groupMetaByPlugin [(''seo_pro_title'', v)] plugins
            = (if isEmpty v then ([], None)
               else ([(plugin_slug b, (b, [(''seo_pro_title'', v)]))], None))"
      using seo_pro_title_plain fi
      by (simp add: groupMetaByPlugin_def isSkipped_def matchPlugins_fresh addToGroup_def
          hasMeaningfulContent_def)
    have t2: "distinct (objKeys meta) \<and> (''seo_pro_title'', v) \<in> set meta
             \<and> groupMetaByPlugin meta plugins = (g, r) \<longrightarrow>
             groupsOf g ''seo_pro_title'' = (if isEmpty v then [] else [plugin_slug b])
             \<and> \<not> inRemaining r ''seo_pro_title''"
    proof (intro impI)
      assume m: "distinct (objKeys meta) \<and> (''seo_pro_title'', v) \<in> set meta
             \<and> groupMetaByPlugin meta plugins = (g, r)"
      then have d: "distinct (objKeys meta)" and i: "(''seo_pro_title'', v) \<in> set meta"
        and e: "groupMetaByPlugin meta plugins = (g, r)"
        by simp_all
      have dm: "distinct (map fst meta)" using d by (simp add: objKeys_def)
      from d e obtain a2 rem where
        c2: "distinct (map fst (groupEntries g))"
        and c3: "set (groupEntries g) \<subseteq> {e \<in> set meta. classifiable e}"
        and c4: "set (map fst (groupEntries g)) \<subseteq> a2"
        and c6: "set rem \<subseteq> {e \<in> set meta. classifiable e}"
        and c7: "set (map fst rem) =
          {k. \<exists>v. (k, v) \<in> set meta \<and> k \<notin> a2 \<and> classifiable (k, v) \<and> looksLikePluginMeta k}"
        and c8: "r = (if rem \<noteq> [] then Some rem else None)"
        by (rule groupMetaByPlugin_invariant)
      show "groupsOf g ''seo_pro_title'' = (if isEmpty v then [] else [plugin_slug b])
             \<and> \<not> inRemaining r ''seo_pro_title''"
      proof (cases "isEmpty v")
        case True
        have no: "\<And>S w. S \<subseteq> {e \<in> set meta. classifiable e} \<Longrightarrow> (''seo_pro_title'', w) \<notin> S"
        proof
          fix S w
          assume "S \<subseteq> {e \<in> set meta. classifiable e}" and "(''seo_pro_title'', w) \<in> S"
          then have "(''seo_pro_title'', w) \<in> set meta" and "\<not> isEmpty w"
            by (auto simp: classifiable_def)
          then show False
            using distinct_keys_value [OF dm i, of w] True by simp
        qed
        have "''seo_pro_title'' \<notin> set (map fst (groupEntries g))"
          using no [OF c3] by (auto simp: image_iff)
        then have r1: "groupsOf g ''seo_pro_title'' = []"
          using groupsOf_iff [of g "''seo_pro_title''"] by simp
        have "''seo_pro_title'' \<notin> set (map fst rem)"
          using no [OF c6] by (auto simp: image_iff)
        then have "\<not> inRemaining r ''seo_pro_title''"
          unfolding c8 inRemaining_iff .
        then show ?thesis using r1 True by simp
      next
        case nv: False
        from e obtain g1 a1 ug a2' where
          k: "knownLoop meta (sortPlugins plugins) ([], {}) = (g1, a1)"
          and g: "g = mergeUnknown ug g1"
          by (rule groupMetaByPlugin_parts)
        have "plugin_slug b \<in> set (groupsOf g1 ''seo_pro_title'')"
          using dm i _ nv seo_pro_title_plain fi k by (rule knownLoop_assigns) simp
        then have mem: "plugin_slug b \<in> set (groupsOf g ''seo_pro_title'')"
          unfolding g by (rule mergeUnknown_keeps)
        have "length (groupsOf g ''seo_pro_title'') \<le> 1"
          using c2 by (rule groupsOf_length)
        then have r1: "groupsOf g ''seo_pro_title'' = [plugin_slug b]"
          using mem by (cases "groupsOf g ''seo_pro_title''") auto
        then have "''seo_pro_title'' \<in> set (map fst (groupEntries g))"
          using groupsOf_iff [of g "''seo_pro_title''"] by simp
        then have "''seo_pro_title'' \<in> a2" using c4 by blast
        then have "''seo_pro_title'' \<notin> set (map fst rem)" using c7 by blast
        then have r2: "\<not> inRemaining r ''seo_pro_title''"
          unfolding c8 inRemaining_iff .
        show ?thesis using r1 r2 nv by simp
      qed
    qed
    show "sortPlugins plugins = [b, a]
        \<and> groupMetaByPlugin [(''seo_pro_title'', v)] plugins
            = (if isEmpty v then ([], None)
               else ([(plugin_slug b, (b, [(''seo_pro_title'', v)]))], None))
        \<and> (distinct (objKeys meta) \<and> (''seo_pro_title'', v) \<in> set meta
             \<and> groupMetaByPlugin meta plugins = (g, r) \<longrightarrow>
             groupsOf g ''seo_pro_title'' = (if isEmpty v then [] else [plugin_slug b])
             \<and> \<not> inRemaining r ''seo_pro_title'')"
      using so t1 t2 by blast
  qed
  show ?thesis
    using s1 s2 s3 s4 s5 s6 by blast
qed

theorem classifier_priority_witness:
  "sortPlugins [seoPlugin, seoProPlugin] = [seoProPlugin, seoPlugin]
   \<and> groupMetaByPlugin [(''seo_pro_title'', JStr ''P'')] [seoPlugin, seoProPlugin]
       = ([(''seo-pro'', (seoProPlugin, [(''seo_pro_title'', JStr ''P'')]))], None)
   \<and> groupsOf (fst (groupMetaByPlugin sampleMeta [seoPlugin, seoProPlugin])) ''seo_pro_title''
       = [''seo-pro'']"
proof -
  have h: "plugin_prefixes seoPlugin = [''seo''] \<and> plugin_prefixes seoProPlugin = [''seo_pro'']
        \<and> ([seoPlugin, seoProPlugin] = [seoPlugin, seoProPlugin]
            \<or> [seoPlugin, seoProPlugin] = [seoProPlugin, seoPlugin])"
    by (simp add: seoPlugin_def seoProPlugin_def)
  have nv: "\<not> isEmpty (JStr ''P'')"
    by (simp add: isEmpty_iff)
  have m: "distinct (objKeys sampleMeta) \<and> (''seo_pro_title'', JStr ''P'') \<in> set sampleMeta
      \<and> groupMetaByPlugin sampleMeta [seoPlugin, seoProPlugin]
          = (fst (groupMetaByPlugin sampleMeta [seoPlugin, seoProPlugin]),
             snd (groupMetaByPlugin sampleMeta [seoPlugin, seoProPlugin]))"
    by (simp add: sampleMeta_def objKeys_def)
  note t = classifier_priority [where a = seoPlugin and b = seoProPlugin
      and plugins = "[seoPlugin, seoProPlugin]" and v = "JStr ''P''" and meta = sampleMeta
      and g = "fst (groupMetaByPlugin sampleMeta [seoPlugin, seoProPlugin])"
      and r = "snd (groupMetaByPlugin sampleMeta [seoPlugin, seoProPlugin])",
      THEN conjunct2, THEN conjunct2, THEN conjunct2, THEN conjunct2, THEN conjunct2,
      rule_format, OF h]
  from t have "sortPlugins [seoPlugin, seoProPlugin] = [seoProPlugin, seoPlugin]"
    by blast
  moreover from t nv have "groupMetaByPlugin [(''seo_pro_title'', JStr ''P'')] [seoPlugin, seoProPlugin]
       = ([(plugin_slug seoProPlugin, (seoProPlugin, [(''seo_pro_title'', JStr ''P'')]))], None)"
    by simp
  moreover from t m nv have "groupsOf (fst (groupMetaByPlugin sampleMeta [seoPlugin, seoProPlugin]))
      ''seo_pro_title'' = [plugin_slug seoProPlugin]"
    by simp
  ultimately show ?thesis
    by (simp add: seoProPlugin_def)
qed

section \<open>The import reconciler\<close>


lemma determineAction_table:
  "importMode \<in> {''create'', ''update'', ''sync''} \<Longrightarrow>
   determineAction importMode existing =
     (if importMode = ''create'' then (if existing = None then ''create'' else ''skip'')
      else if importMode = ''update'' then (if existing = None then ''skip'' else ''update'')
      else (if existing = None then ''create'' else ''update''))"
  by (auto simp: determineAction_def)

lemma executeAction_create_head:
  "\<exists>r tr. executeAction be opts dir slug ty ''create'' ex data = (r, CreateItem ty data # tr)"
  by (auto simp: executeAction_def Let_def split: sum.splits prod.splits)

lemma executeAction_update_head:
  "\<exists>r tr. executeAction be opts dir slug ty ''update'' (Some it) data = (r, UpdateItem ty (item_id it) data # tr)"
  by (auto simp: executeAction_def Let_def split: sum.splits prod.splits)


text \<open>
  C1.  For a declared mode in \<open>{create, update, sync}\<close> and the result of the lookup by slug
  (\<open>existing\<close>: the remote item found, or \<open>None\<close>), the action chosen follows the table:
  create and missing gives create, create and existing gives skip, update and existing
  gives update, update and missing gives skip, sync gives update when the item exists and
  create when it does not.  A skip returns the result \<open>skipped\<close> with the reason
  \<open>exists (mode=create)\<close> or \<open>not found (mode=update)\<close> and sends nothing; in a dry run the
  other actions are reported as \<open>would-create\<close> or \<open>would-update\<close>; in a real run the request
  sent right after the lookup is the create request, or the update request for the id of
  the existing item.
\<close>

theorem reconciler_table:
  assumes mode: "importMode \<in> {''create'', ''update'', ''sync''}"
    and ex: "existing = (case getBySlug be ty (md_slug md) of Inr found \<Rightarrow> found | Inl e \<Rightarrow> None)"
  shows
   "determineAction importMode existing =
      (if importMode = ''create'' then (if existing = None then ''create'' else ''skip'')
       else if importMode = ''update'' then (if existing = None then ''skip'' else ''update'')
       else (if existing = None then ''create'' else ''update''))
    \<and> (determineAction importMode existing = ''skip'' \<longrightarrow>
          reconcile be opts importMode dir slug ty md content =
            (Inr \<lparr> res_slug = slug, res_action = ''skipped'',
                   res_reason = Some (if importMode = ''create'' then ''exists (mode=create)''
                                      else ''not found (mode=update)''),
                   res_dryRun = False, res_id = None, res_extensions = None \<rparr>,
             [GetBySlug ty (md_slug md)]))
    \<and> (determineAction importMode existing \<noteq> ''skip'' \<and> opt_dryRun opts \<longrightarrow>
          reconcile be opts importMode dir slug ty md content =
            (Inr \<lparr> res_slug = slug, res_action = ''would-'' @ determineAction importMode existing,
                   res_reason = None, res_dryRun = True, res_id = None, res_extensions = None \<rparr>,
             [GetBySlug ty (md_slug md),
              Log DryRun [Txt ''Would '', Txt (determineAction importMode existing), Txt '' '',
                          Txt (typeName ty), Txt ''/'', Txt slug]]))
    \<and> (determineAction importMode existing = ''create'' \<and> \<not> opt_dryRun opts \<longrightarrow>
          (\<exists>r tr. reconcile be opts importMode dir slug ty md content =
             (r, GetBySlug ty (md_slug md) # CreateItem ty (prepareItemData ty md content) # tr)))
    \<and> (determineAction importMode existing = ''update'' \<and> \<not> opt_dryRun opts \<longrightarrow>
          (\<exists>it r tr. existing = Some it \<and> reconcile be opts importMode dir slug ty md content =
             (r, GetBySlug ty (md_slug md)
                   # UpdateItem ty (item_id it) (prepareItemData ty md content) # tr)))"
proof -
  have tab: "determineAction importMode existing =
      (if importMode = ''create'' then (if existing = None then ''create'' else ''skip'')
       else if importMode = ''update'' then (if existing = None then ''skip'' else ''update'')
       else (if existing = None then ''create'' else ''update''))"
    using mode by (rule determineAction_table)
  have skip: "determineAction importMode existing = ''skip'' \<Longrightarrow>
      skipReason existing = (if importMode = ''create'' then ''exists (mode=create)''
                                      else ''not found (mode=update)'')"
    using mode unfolding tab by (auto simp: skipReason_def split: if_splits)
  have c2: "determineAction importMode existing = ''skip'' \<longrightarrow>
          reconcile be opts importMode dir slug ty md content =
            (Inr \<lparr> res_slug = slug, res_action = ''skipped'',
                   res_reason = Some (if importMode = ''create'' then ''exists (mode=create)''
                                      else ''not found (mode=update)''),
                   res_dryRun = False, res_id = None, res_extensions = None \<rparr>,
             [GetBySlug ty (md_slug md)])"
    using skip by (simp add: reconcile_def ex [symmetric])
  have c3: "determineAction importMode existing \<noteq> ''skip'' \<and> opt_dryRun opts \<longrightarrow>
          reconcile be opts importMode dir slug ty md content =
            (Inr \<lparr> res_slug = slug, res_action = ''would-'' @ determineAction importMode existing,
                   res_reason = None, res_dryRun = True, res_id = None, res_extensions = None \<rparr>,
             [GetBySlug ty (md_slug md),
              Log DryRun [Txt ''Would '', Txt (determineAction importMode existing), Txt '' '',
                          Txt (typeName ty), Txt ''/'', Txt slug]])"
    by (simp add: reconcile_def ex [symmetric] Let_def)
  have c4: "determineAction importMode existing = ''create'' \<and> \<not> opt_dryRun opts \<longrightarrow>
          (\<exists>r tr. reconcile be opts importMode dir slug ty md content =
             (r, GetBySlug ty (md_slug md) # CreateItem ty (prepareItemData ty md content) # tr))"
  proof
    assume a: "determineAction importMode existing = ''create'' \<and> \<not> opt_dryRun opts"
    obtain r tr where e: "executeAction be opts dir slug ty ''create'' existing (prepareItemData ty md content)
        = (r, CreateItem ty (prepareItemData ty md content) # tr)"
      using executeAction_create_head by blast
    show "\<exists>r tr. reconcile be opts importMode dir slug ty md content =
             (r, GetBySlug ty (md_slug md) # CreateItem ty (prepareItemData ty md content) # tr)"
      using a e by (simp add: reconcile_def ex [symmetric] Let_def)
  qed
  have c5: "determineAction importMode existing = ''update'' \<and> \<not> opt_dryRun opts \<longrightarrow>
          (\<exists>it r tr. existing = Some it \<and> reconcile be opts importMode dir slug ty md content =
             (r, GetBySlug ty (md_slug md)
                   # UpdateItem ty (item_id it) (prepareItemData ty md content) # tr))"
  proof
    assume a: "determineAction importMode existing = ''update'' \<and> \<not> opt_dryRun opts"
    then obtain it where it: "existing = Some it"
      using mode unfolding tab by (auto split: if_splits)
    obtain r tr where e: "executeAction be opts dir slug ty ''update'' (Some it) (prepareItemData ty md content)
        = (r, UpdateItem ty (item_id it) (prepareItemData ty md content) # tr)"
      using executeAction_update_head by blast
    show "\<exists>it r tr. existing = Some it \<and> reconcile be opts importMode dir slug ty md content =
             (r, GetBySlug ty (md_slug md)
                   # UpdateItem ty (item_id it) (prepareItemData ty md content) # tr)"
      using a e it by (simp add: reconcile_def ex [symmetric] Let_def)
  qed
  show ?thesis using tab c2 c3 c4 c5 by blast
qed



lemma extensionLoop_readable:
  "list_all (\<lambda>(f, st). isPresent st) (filter (\<lambda>(f, st). f \<notin> set metaFileNames) files) \<Longrightarrow>
   extensionLoop files acc names tr =
     (Inr (foldl objAssign acc (map (contentOf \<circ> snd) (filter (\<lambda>(f, st). f \<notin> set metaFileNames) files)),
           names @ map (\<lambda>(f, st). replaceFirst ''.json'' [] f) (filter (\<lambda>(f, st). f \<notin> set metaFileNames) files)),
      tr @ map (\<lambda>(f, st). ReadFile f) (filter (\<lambda>(f, st). f \<notin> set metaFileNames) files))"
proof (induction files arbitrary: acc names tr)
  case Nil
  then show ?case by simp
next
  case (Cons a files)
  obtain f st where a: "a = (f, st)" by (cases a)
  show ?case
  proof (cases "f \<in> set metaFileNames")
    case True
    then show ?thesis using Cons a by simp
  next
    case False
    then obtain ob where "st = Present ob"
      using Cons.prems a by (cases st) (auto simp: isPresent_def)
    then show ?thesis using Cons a False by (simp add: contentOf_def)
  qed
qed

text \<open>A group file that cannot be read stops the loop with its error; the reads made up
  to there are reads of group files, in listing order.\<close>

lemma extensionLoop_unreadable:
  "\<not> list_all (\<lambda>(f, st). isPresent st) (filter (\<lambda>(f, st). f \<notin> set metaFileNames) files) \<Longrightarrow>
   \<exists>e rs. extensionLoop files acc names tr = (Inl e, tr @ rs)
     \<and> prefix rs (map (\<lambda>(f, st). ReadFile f) (filter (\<lambda>(f, st). f \<notin> set metaFileNames) files))"
proof (induction files arbitrary: acc names tr)
  case Nil
  then show ?case by simp
next
  case (Cons a files)
  obtain f st where a: "a = (f, st)" by (cases a)
  show ?case
  proof (cases "f \<in> set metaFileNames")
    case True
    then show ?thesis using Cons a by simp
  next
    case False
    show ?thesis
    proof (cases st)
      case Missing
      then show ?thesis using a False by simp
    next
      case (Unreadable msg)
      then show ?thesis using a False by simp
    next
      case (Present ob)
      then have "\<not> list_all (\<lambda>(f, st). isPresent st) (filter (\<lambda>(f, st). f \<notin> set metaFileNames) files)"
        using Cons.prems a False by (simp add: isPresent_def)
      from Cons.IH [OF this, of "objAssign acc ob" "names @ [replaceFirst ''.json'' [] f]" "tr @ [ReadFile f]"]
      obtain e rs where e: "extensionLoop files (objAssign acc ob) (names @ [replaceFirst ''.json'' [] f])
            (tr @ [ReadFile f]) = (Inl e, (tr @ [ReadFile f]) @ rs)"
        and p: "prefix rs (map (\<lambda>(f, st). ReadFile f) (filter (\<lambda>(f, st). f \<notin> set metaFileNames) files))"
        by blast
      have "extensionLoop (a # files) acc names tr = (Inl e, tr @ (ReadFile f # rs))"
        using e a False Present by simp
      moreover have "prefix (ReadFile f # rs)
          (map (\<lambda>(f, st). ReadFile f) (filter (\<lambda>(f, st). f \<notin> set metaFileNames) (a # files)))"
        using p a False by simp
      ultimately show ?thesis by blast
    qed
  qed
qed

lemma objAssign_Nil [simp]: "objAssign ob [] = ob"
  by (simp add: objAssign_def)

lemma importExtensionMeta_readable:
  assumes "allReadable dir"
  shows "importExtensionMeta be opts dir postId ty False =
     (Inr (groupNames dir),
      groupReads dir @
        (if mergedMeta dir = [] then []
         else pushMeta be opts ty postId (mergedMeta dir) (groupNames dir)))"
proof -
  have l: "list_all (\<lambda>(f, st). isPresent st) (filter (\<lambda>(f, st). f \<notin> set metaFileNames) (jsonFiles dir))"
    using assms by (simp add: allReadable_def groupFiles_def)
  have m: "\<not> isUnreadable (metaJson dir)"
    using assms by (simp add: allReadable_def)
  show ?thesis
    using m
    by (cases "metaJson dir")
       (simp_all add: importExtensionMeta_def extensionLoop_readable [OF l] groupNames_def
          groupReads_def mergedMeta_def groupFiles_def isUnreadable_def isPresent_def contentOf_def
          objKeys_def)
qed

lemma importExtensionMeta_unreadable:
  assumes "\<not> allReadable dir"
  shows "\<exists>e rs. importExtensionMeta be opts dir postId ty dryRun = (Inl e, ListDir ''.'' # rs)
     \<and> prefix rs (map (\<lambda>(f, st). ReadFile f) (groupFiles dir) @ [ReadFile ''meta.json''])"
proof (cases "list_all (\<lambda>(f, st). isPresent st) (filter (\<lambda>(f, st). f \<notin> set metaFileNames) (jsonFiles dir))")
  case True
  then obtain msg where m: "metaJson dir = Unreadable msg"
    using assms by (cases "metaJson dir") (simp_all add: allReadable_def groupFiles_def isUnreadable_def)
  show ?thesis
    by (simp add: importExtensionMeta_def extensionLoop_readable [OF True] m groupFiles_def)
next
  case False
  from extensionLoop_unreadable [OF False, of "[]" "[]" "[ListDir ''.'']"]
  obtain e rs where e: "extensionLoop (jsonFiles dir) [] [] [ListDir ''.''] = (Inl e, [ListDir ''.''] @ rs)"
    and p: "prefix rs (map (\<lambda>(f, st). ReadFile f) (filter (\<lambda>(f, st). f \<notin> set metaFileNames) (jsonFiles dir)))"
    by blast
  have "prefix rs (map (\<lambda>(f, st). ReadFile f) (groupFiles dir) @ [ReadFile ''meta.json''])"
    using p by (simp add: groupFiles_def prefix_prefix)
  then show ?thesis
    using e by (simp add: importExtensionMeta_def)
qed

text \<open>
  C8 (as amended).  After a successful create or update in a real run, the metadata
  import lists the item directory and reads the group files in listing order, then
  \<open>meta.json\<close>.  When every one of them can be read, it merges them into the one object
  \<open>mergedMeta dir\<close> and, unless that object has no field, sends it once as the combined
  field \<open>all_meta\<close>; when that request is rejected it sends the same object through the
  field \<open>meta\<close>; when that is rejected too it writes a warning line to the console.
  Whatever the two pushes return, the item is reported as succeeded with the same result:
  the action, the id the create or update returned, and the names of the group files; the
  result carries no warning.  When a group file or \<open>meta.json\<close> cannot be read, the item
  fails with the error of that read, after the create or update was sent and logged as a
  success; up to there only files were read and no metadata was pushed.
\<close>

theorem metadata_push_fallback:
  assumes ok: "(action = ''create'' \<and> createItem be ty data = Inr result \<and> ev = CreateItem ty data
                  \<and> word = ''Created '')
               \<or> (action \<noteq> ''create'' \<and> existingItem = Some ex
                  \<and> updateItem be ty (item_id ex) data = Inr result
                  \<and> ev = UpdateItem ty (item_id ex) data \<and> word = ''Updated '')"
    and real: "\<not> opt_dryRun opts"
  shows "(allReadable dir \<longrightarrow>
          executeAction be opts dir slug ty action existingItem data =
           (Inr \<lparr> res_slug = slug, res_action = action, res_reason = None, res_dryRun = False,
                  res_id = Some (item_id result), res_extensions = Some (groupNames dir) \<rparr>,
            [ev, Log Success [Txt word, Txt (typeName ty), Txt ''/'', Txt slug, Txt '' (ID: '',
                              Num (item_id result), Txt '')'']]
            @ groupReads dir
            @ (if mergedMeta dir = [] then []
               else PutMeta ty (item_id result) ''all_meta'' (mergedMeta dir) #
                 (case putMeta be ty (item_id result) ''all_meta'' (mergedMeta dir) of
                    Inr u \<Rightarrow> logVerbose opts (Txt ''  Imported extension meta: '' # map Txt (groupNames dir))
                  | Inl e \<Rightarrow>
                      PutMeta ty (item_id result) ''meta'' (mergedMeta dir) #
                        (case putMeta be ty (item_id result) ''meta'' (mergedMeta dir) of
                           Inr u \<Rightarrow> logVerbose opts [Txt ''  Imported meta via standard API'']
                         | Inl (Failure msg) \<Rightarrow>
                             [Log Warning [Txt ''  Could not import meta: '', Txt msg]])))))
       \<and> (\<not> allReadable dir \<longrightarrow>
          (\<exists>e rs. executeAction be opts dir slug ty action existingItem data =
             (Inl e,
              [ev, Log Success [Txt word, Txt (typeName ty), Txt ''/'', Txt slug, Txt '' (ID: '',
                                Num (item_id result), Txt '')''], ListDir ''.''] @ rs)
            \<and> prefix rs (map (\<lambda>(f, st). ReadFile f) (groupFiles dir) @ [ReadFile ''meta.json''])))"
proof (intro conjI impI)
  assume readable: "allReadable dir"
  have ext: "importExtensionMeta be opts dir (item_id result) ty (opt_dryRun opts) =
     (Inr (groupNames dir),
      groupReads dir @
        (if mergedMeta dir = [] then []
         else pushMeta be opts ty (item_id result) (mergedMeta dir) (groupNames dir)))"
    using importExtensionMeta_readable [OF readable] real by simp
  from ok show "executeAction be opts dir slug ty action existingItem data =
           (Inr \<lparr> res_slug = slug, res_action = action, res_reason = None, res_dryRun = False,
                  res_id = Some (item_id result), res_extensions = Some (groupNames dir) \<rparr>,
            [ev, Log Success [Txt word, Txt (typeName ty), Txt ''/'', Txt slug, Txt '' (ID: '',
                              Num (item_id result), Txt '')'']]
            @ groupReads dir
            @ (if mergedMeta dir = [] then []
               else PutMeta ty (item_id result) ''all_meta'' (mergedMeta dir) #
                 (case putMeta be ty (item_id result) ''all_meta'' (mergedMeta dir) of
                    Inr u \<Rightarrow> logVerbose opts (Txt ''  Imported extension meta: '' # map Txt (groupNames dir))
                  | Inl e \<Rightarrow>
                      PutMeta ty (item_id result) ''meta'' (mergedMeta dir) #
                        (case putMeta be ty (item_id result) ''meta'' (mergedMeta dir) of
                           Inr u \<Rightarrow> logVerbose opts [Txt ''  Imported meta via standard API'']
                         | Inl (Failure msg) \<Rightarrow>
                             [Log Warning [Txt ''  Could not import meta: '', Txt msg]]))))"
  proof
    assume "action = ''create'' \<and> createItem be ty data = Inr result \<and> ev = CreateItem ty data
                  \<and> word = ''Created ''"
    then show ?thesis
      by (simp add: executeAction_def ext pushMeta_def)
  next
    assume "action \<noteq> ''create'' \<and> existingItem = Some ex
                  \<and> updateItem be ty (item_id ex) data = Inr result
                  \<and> ev = UpdateItem ty (item_id ex) data \<and> word = ''Updated ''"
    then show ?thesis
      by (simp add: executeAction_def ext pushMeta_def)
  qed
next
  assume unreadable: "\<not> allReadable dir"
  from importExtensionMeta_unreadable [OF unreadable, of be opts "item_id result" ty "opt_dryRun opts"]
  obtain e rs where ext: "importExtensionMeta be opts dir (item_id result) ty (opt_dryRun opts)
        = (Inl e, ListDir ''.'' # rs)"
    and p: "prefix rs (map (\<lambda>(f, st). ReadFile f) (groupFiles dir) @ [ReadFile ''meta.json''])"
    by blast
  have "executeAction be opts dir slug ty action existingItem data =
             (Inl e,
              [ev, Log Success [Txt word, Txt (typeName ty), Txt ''/'', Txt slug, Txt '' (ID: '',
                                Num (item_id result), Txt '')''], ListDir ''.''] @ rs)"
    using ok by (auto simp: executeAction_def ext)
  then show "\<exists>e rs. executeAction be opts dir slug ty action existingItem data =
             (Inl e,
              [ev, Log Success [Txt word, Txt (typeName ty), Txt ''/'', Txt slug, Txt '' (ID: '',
                                Num (item_id result), Txt '')''], ListDir ''.''] @ rs)
            \<and> prefix rs (map (\<lambda>(f, st). ReadFile f) (groupFiles dir) @ [ReadFile ''meta.json''])"
    using p by blast
qed

theorem metadata_push_fallback_witness:
  "executeAction demoBackend realOpts demoDir ''hello-world'' Posts ''create'' None
      (prepareItemData Posts demoMetadata ''body'') =
     (Inr \<lparr> res_slug = ''hello-world'', res_action = ''create'', res_reason = None,
            res_dryRun = False, res_id = Some 7,
            res_extensions = Some [''rank-math'', ''yoast''] \<rparr>,
      [CreateItem Posts (prepareItemData Posts demoMetadata ''body''),
       Log Success [Txt ''Created '', Txt ''posts'', Txt ''/'', Txt ''hello-world'',
                    Txt '' (ID: '', Num 7, Txt '')''],
       ListDir ''.'', ReadFile ''rank-math.json'', ReadFile ''yoast.json'', ReadFile ''meta.json'',
       PutMeta Posts 7 ''all_meta''
         [(''rank_math_title'', JStr ''T''), (''_yoast_wpseo_title'', JStr ''Y''),
          (''custom_flag'', JNum 0)],
       PutMeta Posts 7 ''meta''
         [(''rank_math_title'', JStr ''T''), (''_yoast_wpseo_title'', JStr ''Y''),
          (''custom_flag'', JNum 0)],
       Log Warning [Txt ''  Could not import meta: '', Txt ''rest_invalid_param'']])"
proof -
  have ok: "(''create'' = ''create'' \<and> createItem demoBackend Posts (prepareItemData Posts demoMetadata ''body'') = Inr \<lparr> item_id = 7 \<rparr>
             \<and> CreateItem Posts (prepareItemData Posts demoMetadata ''body'') = CreateItem Posts (prepareItemData Posts demoMetadata ''body'')
                  \<and> ''Created '' = ''Created '')
               \<or> (''create'' \<noteq> ''create'' \<and> None = Some \<lparr> item_id = 0 \<rparr>
                  \<and> updateItem demoBackend Posts (item_id \<lparr> item_id = 0 \<rparr>) (prepareItemData Posts demoMetadata ''body'') = Inr \<lparr> item_id = 7 \<rparr>
                  \<and> CreateItem Posts (prepareItemData Posts demoMetadata ''body'') = UpdateItem Posts (item_id \<lparr> item_id = 0 \<rparr>) (prepareItemData Posts demoMetadata ''body'') \<and> ''Created '' = ''Updated '')"
    by (simp add: demoBackend_def)
  have rd: "allReadable demoDir"
    by (simp add: allReadable_def demoDir_def groupFiles_def metaFileNames_def isPresent_def
        isUnreadable_def)
  have real: "\<not> opt_dryRun realOpts"
    by (simp add: realOpts_def)
  have mm: "mergedMeta demoDir = [(''rank_math_title'', JStr ''T''), (''_yoast_wpseo_title'', JStr ''Y''),
          (''custom_flag'', JNum 0)]"
    by (simp add: mergedMeta_def demoDir_def groupFiles_def metaFileNames_def contentOf_def
        objAssign_def objSet_def isArrayIndex_def)
  have gn: "groupNames demoDir = [''rank-math'', ''yoast'']"
    by (simp add: groupNames_def demoDir_def groupFiles_def metaFileNames_def)
  have gr: "groupReads demoDir = [ListDir ''.'', ReadFile ''rank-math.json'', ReadFile ''yoast.json'', ReadFile ''meta.json'']"
    by (simp add: groupReads_def demoDir_def groupFiles_def metaFileNames_def isPresent_def)
  show ?thesis
    using metadata_push_fallback [OF ok real, where dir = demoDir and slug = "''hello-world''",
        THEN conjunct1, rule_format, OF rd]
    unfolding mm gn gr by (simp add: typeName_def demoBackend_def)
qed

text \<open>
  C8 as stated fails.  For the sample item with a group file that does not parse, the
  create request is sent and logged as a success and the item then fails with the error of
  the read, with no metadata pushed.  When both pushes are rejected, the result of the
  item is the very result of a run whose first push is accepted: the warning is a console
  line, and nothing in the result records it.  And for an item without metadata files
  nothing is pushed at all.
\<close>

theorem metadata_failure_fails_item:
  "importItem demoBackend realOpts ''sync'' brokenDir ''hello-world'' Posts =
     (Inl (Failure ''Unexpected end of JSON input''),
      [Log Verbose [Txt ''Processing '', Txt ''posts'', Txt ''/'', Txt ''hello-world''],
       ReadFile ''metadata.json'', ReadFile ''body.html'', ReadFile ''media-mapping.json'',
       Log Verbose [Txt ''  Uploading '', Num 1, Txt '' media files...''],
       ListDir ''media'', UploadMedia ''photo.jpg'',
       Log Verbose [Txt ''    Uploaded: '', Txt ''photo.jpg''],
       GetBySlug Posts ''hello-world'',
       CreateItem Posts
         (prepareItemData Posts demoMetadata ''<img src=https://new.example/photo.jpg>''),
       Log Success [Txt ''Created '', Txt ''posts'', Txt ''/'', Txt ''hello-world'',
                    Txt '' (ID: '', Num 7, Txt '')''],
       ListDir ''.'', ReadFile ''rank-math.json'', ReadFile ''yoast.json''],
      1)
   \<and> fst (importItem demoBackend realOpts ''sync'' demoDir ''hello-world'' Posts) =
       Inr \<lparr> res_slug = ''hello-world'', res_action = ''create'', res_reason = None,
              res_dryRun = False, res_id = Some 7,
              res_extensions = Some [''rank-math'', ''yoast''] \<rparr>
   \<and> Log Warning [Txt ''  Could not import meta: '', Txt ''rest_invalid_param'']
       \<in> set (fst (snd (importItem demoBackend realOpts ''sync'' demoDir ''hello-world'' Posts)))
   \<and> fst (importItem acceptingBackend realOpts ''sync'' demoDir ''hello-world'' Posts) =
       fst (importItem demoBackend realOpts ''sync'' demoDir ''hello-world'' Posts)
   \<and> fst (importItem demoBackend realOpts ''sync'' bareDir ''hello-world'' Posts) =
       Inr \<lparr> res_slug = ''hello-world'', res_action = ''create'', res_reason = None,
              res_dryRun = False, res_id = Some 7, res_extensions = Some [] \<rparr>
   \<and> \<not> list_ex (\<lambda>ev. case ev of PutMeta ty i field ob \<Rightarrow> True | _ \<Rightarrow> False)
         (fst (snd (importItem demoBackend realOpts ''sync'' bareDir ''hello-world'' Posts)))"
  by code_simp


theorem reconciler_table_witness:
  "''create'' \<in> {''create'', ''update'', ''sync''}
   \<and> determineAction ''create'' (Some \<lparr> item_id = 42 \<rparr>) = ''skip''
   \<and> reconcile existingBackend realOpts ''create'' demoDir ''hello-world'' Posts demoMetadata ''body'' =
       (Inr \<lparr> res_slug = ''hello-world'', res_action = ''skipped'',
              res_reason = Some ''exists (mode=create)'', res_dryRun = False, res_id = None,
              res_extensions = None \<rparr>,
        [GetBySlug Posts ''hello-world''])"
proof -
  have mode: "''create'' \<in> {''create'', ''update'', ''sync''}"
    by simp
  have ex: "Some \<lparr> item_id = 42 \<rparr> =
      (case getBySlug existingBackend Posts (md_slug demoMetadata) of Inr found \<Rightarrow> found | Inl e \<Rightarrow> None)"
    by (simp add: existingBackend_def demoBackend_def)
  show ?thesis
    using reconciler_table [OF mode ex, of realOpts demoDir "''hello-world''" "''body''"]
    by (simp add: demoMetadata_def)
qed


lemma mediaStep_dry: "opt_dryRun opts \<Longrightarrow> mediaStep be opts dir content = (Inr content, [], 0)"
  by (simp add: mediaStep_def)

lemma reconcile_dry:
  "opt_dryRun opts \<Longrightarrow>
   reconcile be opts importMode dir slug ty md content =
     (let existing = (case getBySlug be ty (md_slug md) of Inr found \<Rightarrow> found | Inl e \<Rightarrow> None);
          action = determineAction importMode existing
      in if action = ''skip'' then
           (Inr \<lparr> res_slug = slug, res_action = ''skipped'',
                  res_reason = Some (skipReason existing), res_dryRun = False,
                  res_id = None, res_extensions = None \<rparr>,
            [GetBySlug ty (md_slug md)])
         else
           (Inr \<lparr> res_slug = slug, res_action = ''would-'' @ action,
                  res_reason = None, res_dryRun = True, res_id = None, res_extensions = None \<rparr>,
            [GetBySlug ty (md_slug md),
             Log DryRun [Txt ''Would '', Txt action, Txt '' '', Txt (typeName ty), Txt ''/'', Txt slug]]))"
  by (simp add: reconcile_def Let_def)


text \<open>
  C9 (as amended).  In a dry run \<open>importItem\<close> sends no create, update, metadata or upload
  request and uploads nothing; its outcome does not depend on the media mapping or the
  media directory of the item, which it never reads; when \<open>metadata.json\<close> is there it
  reads \<open>metadata.json\<close> and \<open>body.html\<close>, looks the slug up, and reports the action only:
  the result \<open>skipped\<close> with its reason, or \<open>would-create\<close> / \<open>would-update\<close> together with
  the console line \<open>Would <action> <type>/<slug>\<close>.
\<close>

theorem dry_run_effects:
  assumes dry: "opt_dryRun opts"
  shows
   "(case importItem be opts importMode dir slug ty of (r, tr, n) \<Rightarrow> \<not> list_ex isMutation tr \<and> n = 0)
    \<and> importItem be opts importMode (dir \<lparr> mediaMappingJson := mm, mediaDir := mdir \<rparr>) slug ty
        = importItem be opts importMode dir slug ty
    \<and> (metadataJson dir = Present md \<longrightarrow>
         importItem be opts importMode dir slug ty =
           (let existing = (case getBySlug be ty (md_slug md) of Inr found \<Rightarrow> found | Inl e \<Rightarrow> None);
                action = determineAction importMode existing;
                reads = logVerbose opts [Txt ''Processing '', Txt (typeName ty), Txt ''/'', Txt slug]
                  @ [ReadFile ''metadata.json'', ReadFile ''body.html'']
                  @ (if isPresent (bodyHtml dir) then []
                     else logVerbose opts [Txt ''  No body.html found, using empty content''])
                  @ [GetBySlug ty (md_slug md)]
            in if action = ''skip'' then
                 (Inr \<lparr> res_slug = slug, res_action = ''skipped'',
                        res_reason = Some (skipReason existing), res_dryRun = False,
                        res_id = None, res_extensions = None \<rparr>, reads, 0)
               else
                 (Inr \<lparr> res_slug = slug, res_action = ''would-'' @ action, res_reason = None,
                        res_dryRun = True, res_id = None, res_extensions = None \<rparr>,
                  reads @ [Log DryRun [Txt ''Would '', Txt action, Txt '' '', Txt (typeName ty),
                                       Txt ''/'', Txt slug]], 0)))"
proof -
  have a: "case importItem be opts importMode dir slug ty of (r, tr, n) \<Rightarrow> \<not> list_ex isMutation tr \<and> n = 0"
    using dry
    by (cases "metadataJson dir"; cases "bodyHtml dir")
       (auto simp: importItem_def mediaStep_dry reconcile_dry Let_def logVerbose_def isMutation_def
          list_ex_iff split: prod.splits)
  have b: "importItem be opts importMode (dir \<lparr> mediaMappingJson := mm, mediaDir := mdir \<rparr>) slug ty
        = importItem be opts importMode dir slug ty"
    using dry
    by (cases "metadataJson dir"; cases "bodyHtml dir")
       (simp_all add: importItem_def mediaStep_dry reconcile_dry Let_def)
  have c: "metadataJson dir = Present md \<longrightarrow>
         importItem be opts importMode dir slug ty =
           (let existing = (case getBySlug be ty (md_slug md) of Inr found \<Rightarrow> found | Inl e \<Rightarrow> None);
                action = determineAction importMode existing;
                reads = logVerbose opts [Txt ''Processing '', Txt (typeName ty), Txt ''/'', Txt slug]
                  @ [ReadFile ''metadata.json'', ReadFile ''body.html'']
                  @ (if isPresent (bodyHtml dir) then []
                     else logVerbose opts [Txt ''  No body.html found, using empty content''])
                  @ [GetBySlug ty (md_slug md)]
            in if action = ''skip'' then
                 (Inr \<lparr> res_slug = slug, res_action = ''skipped'',
                        res_reason = Some (skipReason existing), res_dryRun = False,
                        res_id = None, res_extensions = None \<rparr>, reads, 0)
               else
                 (Inr \<lparr> res_slug = slug, res_action = ''would-'' @ action, res_reason = None,
                        res_dryRun = True, res_id = None, res_extensions = None \<rparr>,
                  reads @ [Log DryRun [Txt ''Would '', Txt action, Txt '' '', Txt (typeName ty),
                                       Txt ''/'', Txt slug]], 0))"
    using dry
    by (cases "bodyHtml dir")
       (auto simp: importItem_def mediaStep_dry reconcile_dry Let_def isPresent_def)
  show ?thesis using a b c by blast
qed

theorem dry_run_effects_witness:
  "opt_dryRun dryOpts
   \<and> importItem demoBackend dryOpts ''sync'' demoDir ''hello-world'' Posts =
       (Inr \<lparr> res_slug = ''hello-world'', res_action = ''would-create'', res_reason = None,
              res_dryRun = True, res_id = None, res_extensions = None \<rparr>,
        [Log Verbose [Txt ''Processing '', Txt ''posts'', Txt ''/'', Txt ''hello-world''],
         ReadFile ''metadata.json'', ReadFile ''body.html'', GetBySlug Posts ''hello-world'',
         Log DryRun [Txt ''Would '', Txt ''create'', Txt '' '', Txt ''posts'', Txt ''/'',
                     Txt ''hello-world'']],
        0)"
proof -
  have dry: "opt_dryRun dryOpts"
    by (simp add: dryOpts_def)
  have md: "metadataJson demoDir = Present demoMetadata"
    by (simp add: demoDir_def)
  have e: "importItem demoBackend dryOpts ''sync'' demoDir ''hello-world'' Posts =
      (let existing = (case getBySlug demoBackend Posts (md_slug demoMetadata) of
                         Inr found \<Rightarrow> found | Inl e \<Rightarrow> None);
           action = determineAction ''sync'' existing;
           reads = logVerbose dryOpts [Txt ''Processing '', Txt (typeName Posts), Txt ''/'',
                                       Txt ''hello-world'']
             @ [ReadFile ''metadata.json'', ReadFile ''body.html'']
             @ (if isPresent (bodyHtml demoDir) then []
                else logVerbose dryOpts [Txt ''  No body.html found, using empty content''])
             @ [GetBySlug Posts (md_slug demoMetadata)]
       in if action = ''skip'' then
            (Inr \<lparr> res_slug = ''hello-world'', res_action = ''skipped'',
                   res_reason = Some (skipReason existing), res_dryRun = False,
                   res_id = None, res_extensions = None \<rparr>, reads, 0)
          else
            (Inr \<lparr> res_slug = ''hello-world'', res_action = ''would-'' @ action,
                   res_reason = None, res_dryRun = True, res_id = None,
                   res_extensions = None \<rparr>,
             reads @ [Log DryRun [Txt ''Would '', Txt action, Txt '' '', Txt (typeName Posts),
                                  Txt ''/'', Txt ''hello-world'']], 0))"
    using dry_run_effects [OF dry, where be = demoBackend and importMode = "''sync''"
        and dir = demoDir and slug = "''hello-world''" and ty = Posts and md = demoMetadata
        and mm = Missing and mdir = None, THEN conjunct2, THEN conjunct2, rule_format, OF md] .
  show ?thesis
    unfolding e
    by (simp add: dry Let_def demoBackend_def demoMetadata_def determineAction_def logVerbose_def
        typeName_def isPresent_def) (simp add: demoDir_def dryOpts_def)
qed


text \<open>
  C9 as stated fails: for the sample item a real run uploads \<open>photo.jpg\<close>, and the dry run
  of the same item returns and prints the would-be action only; nothing in its result or
  its trace is about media.
\<close>

theorem dry_run_reports_no_media:
  "UploadMedia ''photo.jpg'' \<in> set (fst (snd (importItem demoBackend realOpts ''sync'' demoDir ''hello-world'' Posts)))
   \<and> importItem demoBackend dryOpts ''sync'' demoDir ''hello-world'' Posts =
       (Inr \<lparr> res_slug = ''hello-world'', res_action = ''would-create'', res_reason = None,
              res_dryRun = True, res_id = None, res_extensions = None \<rparr>,
        [Log Verbose [Txt ''Processing '', Txt ''posts'', Txt ''/'', Txt ''hello-world''],
         ReadFile ''metadata.json'', ReadFile ''body.html'', GetBySlug Posts ''hello-world'',
         Log DryRun [Txt ''Would '', Txt ''create'', Txt '' '', Txt ''posts'', Txt ''/'',
                     Txt ''hello-world'']],
        0)"
  by code_simp

section \<open>Literal rewriting and the round trip\<close>

lemma special_sets: "set escapedChars = set syntaxCharacters"
  by (auto simp: escapedChars_def syntaxCharacters_def)

lemma qmark_special: "CHR ''?'' \<in> set syntaxCharacters"
  by (simp add: syntaxCharacters_def)

lemma bs_special: "backslash \<in> set syntaxCharacters"
  by (simp add: syntaxCharacters_def)

lemma escapeRegExp_Nil [simp]: "escapeRegExp [] = []"
  by (simp add: escapeRegExp_def)

lemma escapeRegExp_Cons:
  "escapeRegExp (c # s) =
     (if c \<in> set syntaxCharacters then backslash # c # escapeRegExp s else c # escapeRegExp s)"
  by (simp add: escapeRegExp_def special_sets)

lemma escapeRegExp_eq_Nil [simp]: "escapeRegExp s = [] \<longleftrightarrow> s = []"
  by (cases s) (simp_all add: escapeRegExp_Cons)

lemma escapeRegExp_no_qmark: "escapeRegExp s \<noteq> CHR ''?'' # r"
  by (cases s) (auto simp: escapeRegExp_Cons qmark_special backslash_def)

lemma parsePattern_escape: "parsePattern (escapeRegExp s) = Some (map Chr s)"
proof (induction s)
  case Nil
  then show ?case by simp
next
  case (Cons c s)
  show ?case
  proof (cases "escapeRegExp s")
    case Nil
    then have "s = []" by simp
    then show ?thesis by (simp add: escapeRegExp_Cons bs_special)
  next
    case (Cons d r)
    then have d: "d \<noteq> CHR ''?''" using escapeRegExp_no_qmark [of s r] by auto
    show ?thesis
      using Cons.IH Cons d by (auto simp: escapeRegExp_Cons bs_special)
  qed
qed

lemma parsePattern_restore:
  "parsePattern (restorePattern f) = Some (OptChr (CHR ''.'') # map Chr (''/media/'' @ f))"
proof (cases "escapeRegExp f")
  case Nil
  then have "f = []" by simp
  then show ?thesis
    by (simp add: restorePattern_def syntaxCharacters_def backslash_def)
next
  case (Cons d r)
  then have d: "d \<noteq> CHR ''?''" using escapeRegExp_no_qmark [of f r] by auto
  have "parsePattern (d # r) = Some (map Chr f)"
    using parsePattern_escape [of f] Cons by simp
  then show ?thesis
    using d Cons by (simp add: restorePattern_def syntaxCharacters_def backslash_def)
qed

lemma matchAt_literal:
  "matchAt (map Chr u) s = (if prefix u s then Some (length u) else None)"
proof (induction u arbitrary: s)
  case Nil
  then show ?case by simp
next
  case (Cons c u)
  then show ?case by (cases s) auto
qed

lemma matchAt_optional:
  "matchAt (OptChr c # map Chr m) s =
     (if prefix (c # m) s then Some (Suc (length m))
      else if prefix m s then Some (length m) else None)"
  by (cases s) (auto simp: matchAt_literal)

lemma matchAt_le: "matchAt re s = Some n \<Longrightarrow> n \<le> length s"
  by (induction re s arbitrary: n rule: matchAt.induct) (auto split: if_splits option.splits)

lemma replaceFrom_skip:
  "replaceFrom re t pre (w @ b) (length w) = replaceFrom re t (pre @ w) b 0"
proof (induction w arbitrary: pre)
  case Nil
  then show ?case by simp
next
  case (Cons x w)
  then show ?case by simp
qed

lemma replaceFrom_match:
  assumes "matchAt re (w @ b) = Some (length w)" and "w \<noteq> []"
  shows "replaceFrom re t pre (w @ b) 0 = expandTemplate t w pre b @ replaceFrom re t (pre @ w) b 0"
proof -
  obtain x w' where w: "w = x # w'" using assms(2) by (cases w) auto
  have "replaceFrom re t (pre @ [x]) (w' @ b) (length w') = replaceFrom re t ((pre @ [x]) @ w') b 0"
    by (rule replaceFrom_skip)
  then show ?thesis using assms w by simp
qed

lemma replaceFrom_nomatch:
  assumes "\<forall>i<length a. matchAt re (drop i (a @ s)) = None"
  shows "replaceFrom re t pre (a @ s) 0 = a @ replaceFrom re t (pre @ a) s 0"
  using assms
proof (induction a arbitrary: pre)
  case Nil
  then show ?case by simp
next
  case (Cons x a)
  have h: "matchAt re (x # a @ s) = None"
    using Cons.prems by (auto dest: spec [of _ 0])
  have "\<forall>i<length a. matchAt re (drop i (a @ s)) = None"
  proof (intro allI impI)
    fix i assume "i < length a"
    then have "Suc i < length (x # a)" by simp
    then have "matchAt re (drop (Suc i) ((x # a) @ s)) = None" using Cons.prems by blast
    then show "matchAt re (drop i (a @ s)) = None" by simp
  qed
  then have "replaceFrom re t (pre @ [x]) (a @ s) 0 = a @ replaceFrom re t ((pre @ [x]) @ a) s 0"
    by (rule Cons.IH)
  then show ?case using h by simp
qed

lemma replaceFrom_first_match:
  assumes "\<forall>i<length a. matchAt re (drop i (a @ w @ b)) = None"
    and "matchAt re (w @ b) = Some (length w)" and "w \<noteq> []"
  shows "replaceFrom re t pre (a @ w @ b) 0 =
           a @ expandTemplate t w (pre @ a) b @ replaceFrom re t (pre @ a @ w) b 0"
  using replaceFrom_nomatch [OF assms(1), of t pre] replaceFrom_match [OF assms(2,3), of t "pre @ a"]
  by simp

lemma replaceFrom_unchanged:
  assumes "\<forall>i\<le>length c. matchAt re (drop i c) = None"
  shows "replaceFrom re t pre c 0 = c"
proof -
  have "\<forall>i<length c. matchAt re (drop i (c @ [])) = None" using assms by simp
  then have "replaceFrom re t pre (c @ []) 0 = c @ replaceFrom re t (pre @ c) [] 0"
    by (rule replaceFrom_nomatch)
  moreover have "matchAt re [] = None" using assms by (auto dest: spec [of _ "length c"])
  ultimately show ?thesis by simp
qed

lemma expandTemplate_plain: "dollar \<notin> set t \<Longrightarrow> expandTemplate t m p a = t"
  by (induction t m p a rule: expandTemplate.induct) auto

lemma jsReplaceAll_escape:
  "jsReplaceAll (escapeRegExp u) t s = Some (replaceFrom (map Chr u) t [] s 0)"
  by (simp add: jsReplaceAll_def parsePattern_escape)

lemma jsReplaceAll_restore:
  "jsReplaceAll (restorePattern f) t s =
     Some (replaceFrom (OptChr (CHR ''.'') # map Chr (''/media/'' @ f)) t [] s 0)"
  by (simp add: jsReplaceAll_def parsePattern_restore)

lemma replaceMediaUrls_total: "replaceMediaUrls c m \<noteq> None"
  by (induction c m rule: replaceMediaUrls.induct) (simp_all add: jsReplaceAll_escape)

lemma restoreMediaUrls_total: "restoreMediaUrls c m \<noteq> None"
  by (induction c m rule: restoreMediaUrls.induct) (simp_all add: jsReplaceAll_restore)

lemma dot_not_dollar: "CHR ''.'' \<noteq> dollar"
  by (simp add: dollar_def)

lemma forward_prefix_nodot:
  assumes "u \<noteq> []" and "dollar \<notin> set m" and "CHR ''.'' \<notin> set w"
    and "prefix w (replaceFrom (map Chr u) (CHR ''.'' # m) pre s 0)"
  shows "prefix w s"
  using assms(3,4)
proof (induction w arbitrary: s pre)
  case Nil
  then show ?case by simp
next
  case (Cons a w)
  note prems = Cons.prems and IH = Cons.IH
  have pl: "\<And>p q z. expandTemplate (CHR ''.'' # m) p q z = CHR ''.'' # m"
    using assms(2) dot_not_dollar by (intro expandTemplate_plain) auto
  show ?case
  proof (cases s)
    case Nil
    then show ?thesis using prems assms(1) by (simp add: matchAt_literal)
  next
    case (Cons x xs)
    show ?thesis
    proof (cases "prefix u (x # xs)")
      case True
      then have "replaceFrom (map Chr u) (CHR ''.'' # m) pre s 0 =
          (CHR ''.'' # m) @ replaceFrom (map Chr u) (CHR ''.'' # m) (pre @ [x]) xs (length u - 1)"
        using Cons assms(1) by (simp add: matchAt_literal pl del: expandTemplate.simps)
      then show ?thesis using prems by simp
    next
      case False
      then have "replaceFrom (map Chr u) (CHR ''.'' # m) pre s 0 =
          x # replaceFrom (map Chr u) (CHR ''.'' # m) (pre @ [x]) xs 0"
        using Cons by (simp add: matchAt_literal del: expandTemplate.simps)
      then have "a = x" and "prefix w (replaceFrom (map Chr u) (CHR ''.'' # m) (pre @ [x]) xs 0)"
        using prems by auto
      moreover have "CHR ''.'' \<notin> set w" using prems by simp
      ultimately show ?thesis using IH Cons by auto
    qed
  qed
qed

lemma round_trip_core:
  assumes u: "u \<noteq> []" and du: "dollar \<notin> set u" and dm: "dollar \<notin> set m"
    and k: "prefix k m" "CHR ''.'' \<notin> set k" "k \<noteq> []"
  shows "\<not> sublist k c \<Longrightarrow>
    replaceFrom (OptChr (CHR ''.'') # map Chr m) u pre'
      (replaceFrom (map Chr u) (CHR ''.'' # m) pre c 0) 0 = c"
proof (induction c arbitrary: pre pre' rule: length_induct)
  case (1 c)
  let ?R = "OptChr (CHR ''.'') # map Chr m"
  let ?L = "map Chr u"
  let ?r = "CHR ''.'' # m"
  have pl: "\<And>p q z. expandTemplate ?r p q z = ?r"
    using dm dot_not_dollar by (intro expandTemplate_plain) auto
  have pu: "\<And>p q z. expandTemplate u p q z = u"
    using du by (intro expandTemplate_plain)
  have mne: "m \<noteq> []" using k by auto
  show ?case
  proof (cases c)
    case Nil
    then show ?thesis using u mne by (simp add: matchAt_literal del: expandTemplate.simps)
  next
    case (Cons x xs)
    show ?thesis
    proof (cases "prefix u c")
      case True
      then obtain b where b: "c = u @ b" by (auto simp: prefix_def)
      have lb: "length b < length c" using b u by simp
      have nb: "\<not> sublist k b" using "1.prems" b by (auto simp: sublist_append)
      have "matchAt ?L (u @ b) = Some (length u)" by (simp add: matchAt_literal)
      from replaceFrom_match [OF this u, of ?r pre]
      have fw: "replaceFrom ?L ?r pre (u @ b) 0 = ?r @ replaceFrom ?L ?r (pre @ u) b 0"
        by (simp only: pl)
      let ?y = "replaceFrom ?L ?r (pre @ u) b 0"
      have m: "matchAt ?R (?r @ ?y) = Some (length ?r)"
        by (simp add: matchAt_literal)
      have rne: "?r \<noteq> []" by simp
      from replaceFrom_match [OF m rne, of u pre']
      have bw: "replaceFrom ?R u pre' (?r @ ?y) 0 = u @ replaceFrom ?R u (pre' @ ?r) ?y 0"
        by (simp only: pu)
      have "replaceFrom ?R u (pre' @ ?r) ?y 0 = b"
        using "1.IH" lb nb by blast
      then show ?thesis using fw bw b by simp
    next
      case False
      let ?y = "replaceFrom ?L ?r (pre @ [x]) xs 0"
      have fw: "replaceFrom ?L ?r pre c 0 = x # ?y"
        using False Cons by (simp add: matchAt_literal del: expandTemplate.simps)
      have nx: "\<not> sublist k xs"
        using "1.prems" Cons by (auto simp: sublist_Cons_right)
      have p1: "\<not> prefix m (x # ?y)"
      proof
        assume "prefix m (x # ?y)"
        then have "prefix k (replaceFrom ?L ?r pre c 0)" using fw k(1) by auto
        then have "prefix k c"
          using forward_prefix_nodot [OF u dm k(2)] by blast
        then show False using "1.prems" by (auto dest: prefix_imp_sublist)
      qed
      have p2: "\<not> prefix ?r (x # ?y)"
      proof
        assume "prefix ?r (x # ?y)"
        then have "prefix m ?y" by auto
        then have "prefix k ?y" using k(1) by auto
        then have "prefix k xs"
          using forward_prefix_nodot [OF u dm k(2)] by blast
        then show False using nx by (auto dest: prefix_imp_sublist)
      qed
      have "matchAt ?R (x # ?y) = None"
        using p1 p2 by (simp only: matchAt_optional if_False)
      then have bw: "replaceFrom ?R u pre' (x # ?y) 0 = x # replaceFrom ?R u (pre' @ [x]) ?y 0"
        by (simp del: expandTemplate.simps matchAt.simps)
      have "length xs < length c" using Cons by simp
      then have "replaceFrom ?R u (pre' @ [x]) ?y 0 = xs"
        using "1.IH" nx by blast
      then show ?thesis using fw bw Cons by simp
    qed
  qed
qed

text \<open>
  C7.  Matching is literal and global in both directions.  The escaped URL parses to the
  sequence of its own characters, whatever they are, and the pattern of
  \<open>restoreMediaUrls\<close> to an optional dot followed by the characters of \<open>/media/\<close> and of
  the filename; such a pattern matches at a position exactly when the literal text stands
  there.  Both functions are total, and each mapping entry is one global replacement:
  where the pattern matches nowhere the content is unchanged, and otherwise the text
  before the first match is copied, the match is replaced, and the scan goes on behind
  it by the same rule, so every occurrence is rewritten.
\<close>

theorem rewriting_is_literal_and_global:
  "parsePattern (escapeRegExp u) = Some (map Chr u)
   \<and> parsePattern (restorePattern f) = Some (OptChr (CHR ''.'') # map Chr (''/media/'' @ f))
   \<and> matchAt (map Chr u) s = (if prefix u s then Some (length u) else None)
   \<and> matchAt (OptChr (CHR ''.'') # map Chr (''/media/'' @ f)) s =
        (if prefix (''./media/'' @ f) s then Some (length (''./media/'' @ f))
         else if prefix (''/media/'' @ f) s then Some (length (''/media/'' @ f)) else None)
   \<and> replaceMediaUrls c ((u, f) # rest) =
        replaceMediaUrls (replaceFrom (map Chr u) (''./media/'' @ f) [] c 0) rest
   \<and> restoreMediaUrls c ((f, u) # rest) =
        restoreMediaUrls (replaceFrom (OptChr (CHR ''.'') # map Chr (''/media/'' @ f)) u [] c 0) rest
   \<and> replaceMediaUrls c mapping \<noteq> None
   \<and> restoreMediaUrls c mapping \<noteq> None
   \<and> ((\<forall>i\<le>length c. matchAt re (drop i c) = None) \<longrightarrow> replaceFrom re t pre c 0 = c)
   \<and> ((\<forall>i<length a. matchAt re (drop i (a @ w @ b)) = None)
        \<and> matchAt re (w @ b) = Some (length w) \<and> w \<noteq> [] \<longrightarrow>
        replaceFrom re t pre (a @ w @ b) 0 =
          a @ expandTemplate t w (pre @ a) b @ replaceFrom re t (pre @ a @ w) b 0)"
proof -
  have m2: "matchAt (OptChr (CHR ''.'') # map Chr (''/media/'' @ f)) s =
        (if prefix (''./media/'' @ f) s then Some (length (''./media/'' @ f))
         else if prefix (''/media/'' @ f) s then Some (length (''/media/'' @ f)) else None)"
    using matchAt_optional [of "CHR ''.''" "''/media/'' @ f" s] by simp
  have e1: "replaceMediaUrls c ((u, f) # rest) =
        replaceMediaUrls (replaceFrom (map Chr u) (''./media/'' @ f) [] c 0) rest"
    by (simp add: jsReplaceAll_escape del: replaceFrom.simps)
  have e2: "restoreMediaUrls c ((f, u) # rest) =
        restoreMediaUrls (replaceFrom (OptChr (CHR ''.'') # map Chr (''/media/'' @ f)) u [] c 0) rest"
    by (simp add: jsReplaceAll_restore del: replaceFrom.simps)
  have d1: "(\<forall>i\<le>length c. matchAt re (drop i c) = None) \<longrightarrow> replaceFrom re t pre c 0 = c"
    using replaceFrom_unchanged by blast
  have d2: "(\<forall>i<length a. matchAt re (drop i (a @ w @ b)) = None)
        \<and> matchAt re (w @ b) = Some (length w) \<and> w \<noteq> [] \<longrightarrow>
        replaceFrom re t pre (a @ w @ b) 0 =
          a @ expandTemplate t w (pre @ a) b @ replaceFrom re t (pre @ a @ w) b 0"
    using replaceFrom_first_match by blast
  show ?thesis
    using parsePattern_escape [of u] parsePattern_restore [of f] matchAt_literal [of u s] m2 e1 e2
      replaceMediaUrls_total [of c mapping] restoreMediaUrls_total [of c mapping] d1 d2
    by blast
qed

theorem rewriting_is_literal_and_global_witness:
  "replaceMediaUrls ''<a.b> <a.b> <aXb>'' [(''a.b'', ''f.jpg'')]
     = Some ''<./media/f.jpg> <./media/f.jpg> <aXb>''
   \<and> restoreMediaUrls ''<./media/f.jpg> </media/f.jpg> <./media/fXjpg>'' [(''f.jpg'', ''u(1)'')]
     = Some ''<u(1)> <u(1)> <./media/fXjpg>''"
proof -
  note th = rewriting_is_literal_and_global
  have a: "replaceMediaUrls ''<a.b> <a.b> <aXb>'' [(''a.b'', ''f.jpg'')] =
      replaceMediaUrls (replaceFrom (map Chr ''a.b'') (''./media/'' @ ''f.jpg'') [] ''<a.b> <a.b> <aXb>'' 0) []"
    using th [of "''a.b''" "''f.jpg''" "[]" "''<a.b> <a.b> <aXb>''" "[]" "[]" "[]" "[]" "[]" "[]" "[]" "[]"]
    by blast
  have b: "restoreMediaUrls ''<./media/f.jpg> </media/f.jpg> <./media/fXjpg>'' [(''f.jpg'', ''u(1)'')] =
      restoreMediaUrls (replaceFrom (OptChr (CHR ''.'') # map Chr (''/media/'' @ ''f.jpg'')) ''u(1)'' []
         ''<./media/f.jpg> </media/f.jpg> <./media/fXjpg>'' 0) []"
    using th [of "''u(1)''" "''f.jpg''" "[]" "''<./media/f.jpg> </media/f.jpg> <./media/fXjpg>''" "[]" "[]" "[]" "[]" "[]" "[]" "[]" "[]"]
    by blast
  have a': "replaceFrom (map Chr ''a.b'') (''./media/'' @ ''f.jpg'') [] ''<a.b> <a.b> <aXb>'' 0
      = ''<./media/f.jpg> <./media/f.jpg> <aXb>''"
    by code_simp
  have b': "replaceFrom (OptChr (CHR ''.'') # map Chr (''/media/'' @ ''f.jpg'')) ''u(1)'' []
         ''<./media/f.jpg> </media/f.jpg> <./media/fXjpg>'' 0 = ''<u(1)> <u(1)> <./media/fXjpg>''"
    by code_simp
  show ?thesis
    unfolding a b a' b' by simp
qed

text \<open>
  Where the round trip does hold: for a mapping with the single entry \<open>u \<mapsto> f\<close>, where \<open>u\<close>
  is not empty, neither \<open>u\<close> nor \<open>f\<close> contains a dollar sign, and the content does not
  contain the text \<open>/media/\<close>, rewriting with the mapping and restoring with its inverse
  gives the content back.
\<close>

lemma round_trip_single_entry:
  assumes "u \<noteq> []" and "dollar \<notin> set u" and "dollar \<notin> set f"
    and "\<not> sublist ''/media/'' c"
  shows "\<exists>c'. replaceMediaUrls c [(u, f)] = Some c'
           \<and> restoreMediaUrls c' (inverseMapping [(u, f)]) = Some c"
proof -
  have k: "prefix ''/media/'' (''/media/'' @ f)" "CHR ''.'' \<notin> set ''/media/''" "''/media/'' \<noteq> []"
    by simp_all
  have dm: "dollar \<notin> set (''/media/'' @ f)"
    using assms(3) by (simp add: dollar_def)
  have core: "replaceFrom (OptChr (CHR ''.'') # map Chr (''/media/'' @ f)) u []
      (replaceFrom (map Chr u) (CHR ''.'' # (''/media/'' @ f)) [] c 0) 0 = c"
    using round_trip_core [OF assms(1,2) dm k assms(4)] .
  have fw: "replaceMediaUrls c [(u, f)] = Some (replaceFrom (map Chr u) (CHR ''.'' # (''/media/'' @ f)) [] c 0)"
    by (simp add: jsReplaceAll_escape del: replaceFrom.simps)
  have bw: "restoreMediaUrls (replaceFrom (map Chr u) (CHR ''.'' # (''/media/'' @ f)) [] c 0)
        (inverseMapping [(u, f)]) = Some c"
    using core by (simp add: inverseMapping_def jsReplaceAll_restore del: replaceFrom.simps)
  show ?thesis using fw bw by blast
qed

lemma round_trip_single_entry_sample:
  "''https://old.example/photo.jpg'' \<noteq> []
   \<and> dollar \<notin> set ''https://old.example/photo.jpg'' \<and> dollar \<notin> set ''photo-1a2b3c4d.jpg''
   \<and> \<not> sublist ''/media/'' ''<img src=https://old.example/photo.jpg> <a href=https://old.example/photo.jpg>''
   \<and> replaceMediaUrls ''<img src=https://old.example/photo.jpg> <a href=https://old.example/photo.jpg>''
        [(''https://old.example/photo.jpg'', ''photo-1a2b3c4d.jpg'')]
       = Some ''<img src=./media/photo-1a2b3c4d.jpg> <a href=./media/photo-1a2b3c4d.jpg>''
   \<and> restoreMediaUrls ''<img src=./media/photo-1a2b3c4d.jpg> <a href=./media/photo-1a2b3c4d.jpg>''
        (inverseMapping [(''https://old.example/photo.jpg'', ''photo-1a2b3c4d.jpg'')])
       = Some ''<img src=https://old.example/photo.jpg> <a href=https://old.example/photo.jpg>''"
proof -
  have h1: "''https://old.example/photo.jpg'' \<noteq> []" by simp
  have h2: "dollar \<notin> set ''https://old.example/photo.jpg''" by (simp add: dollar_def)
  have h3: "dollar \<notin> set ''photo-1a2b3c4d.jpg''" by (simp add: dollar_def)
  have h4: "\<not> sublist ''/media/'' ''<img src=https://old.example/photo.jpg> <a href=https://old.example/photo.jpg>''"
    by code_simp
  have fw: "replaceMediaUrls ''<img src=https://old.example/photo.jpg> <a href=https://old.example/photo.jpg>''
        [(''https://old.example/photo.jpg'', ''photo-1a2b3c4d.jpg'')]
       = Some ''<img src=./media/photo-1a2b3c4d.jpg> <a href=./media/photo-1a2b3c4d.jpg>''"
    by code_simp
  show ?thesis
    using round_trip_single_entry [OF h1 h2 h3 h4] h1 h2 h3 h4 fw by auto
qed

text \<open>
  C6.  The round trip does not hold for the code as written.  \<open>restoreMediaUrls\<close> applies
  its entries one after another to the text already restored, and its pattern, meant to
  match the local paths \<open>./media/filename\<close> and \<open>media/filename\<close>, matches \<open>/media/filename\<close>
  anywhere.  With the two images \<open>http://s/media/a.jpg\<close> and \<open>http://t/x.jpg\<close>, stored as
  \<open>b.jpg\<close> and \<open>a.jpg\<close>, the content contains no reference outside the mapping; the first
  entry restores \<open>http://s/media/a.jpg\<close>, the second finds \<open>/media/a.jpg\<close> inside that
  restored URL and rewrites it, and the first image comes back as
  \<open>http://shttp://t/x.jpg\<close>.
\<close>

theorem round_trip_fails_two_entries:
  "replaceMediaUrls ''<img src=http://s/media/a.jpg><img src=http://t/x.jpg>''
      [(''http://s/media/a.jpg'', ''b.jpg''), (''http://t/x.jpg'', ''a.jpg'')]
     = Some ''<img src=./media/b.jpg><img src=./media/a.jpg>''
   \<and> restoreMediaUrls ''<img src=./media/b.jpg><img src=./media/a.jpg>''
      (inverseMapping [(''http://s/media/a.jpg'', ''b.jpg''), (''http://t/x.jpg'', ''a.jpg'')])
     = Some ''<img src=http://shttp://t/x.jpg><img src=http://t/x.jpg>''
   \<and> ''<img src=http://shttp://t/x.jpg><img src=http://t/x.jpg>''
       \<noteq> ''<img src=http://s/media/a.jpg><img src=http://t/x.jpg>''"
  by code_simp

text \<open>The replacement text is a template: a URL with \<open>$$\<close> comes back with one \<open>$\<close>.\<close>

lemma round_trip_dollar_pattern:
  "replaceMediaUrls ''<img src=http://s/a$$b.jpg>'' [(''http://s/a$$b.jpg'', ''f.jpg'')]
     = Some ''<img src=./media/f.jpg>''
   \<and> restoreMediaUrls ''<img src=./media/f.jpg>'' (inverseMapping [(''http://s/a$$b.jpg'', ''f.jpg'')])
     = Some ''<img src=http://s/a$b.jpg>''"
  by code_simp

section \<open>Filenames\<close>

text \<open>The digests of the sample strings, evaluated round by round.\<close>

lemma upt_four: "[0..<4] = [0, 1, 2, 3]"
  by (simp add: upt_rec)

lemma upt_eight: "[0..<8] = [0, 1, 2, 3, 4, 5, 6, 7]"
  by (simp add: upt_rec)

lemma upt_sixty_four:
  "[0..<64] = [0, 1, 2, 3, 4, 5, 6, 7, 8, 9, 10, 11, 12, 13, 14, 15] @ [16, 17, 18, 19, 20, 21, 22, 23, 24, 25, 26, 27, 28, 29, 30, 31] @ [32, 33, 34, 35, 36, 37, 38, 39, 40, 41, 42, 43, 44, 45, 46, 47] @ [48, 49, 50, 51, 52, 53, 54, 55, 56, 57, 58, 59, 60, 61, 62, 63]"
  by (simp add: upt_rec)

lemma replicate_num: "replicate (numeral k) x = x # replicate (pred_numeral k) x"
  by (simp add: numeral_eq_Suc)

lemmas md5_eval = add32_def not32_def rotl32_def md5_f_def md5_g_def md5_K_def md5_shifts_def

lemma md5_bytes_sampleUrlA: "map of_char sampleUrlA = ([104, 116, 116, 112, 115, 58, 47, 47, 101, 120, 97, 109, 112, 108, 101, 46, 99, 111, 109, 47, 117, 112, 108, 111, 97, 100, 115, 47, 112, 104, 111, 116, 111, 46, 106, 112, 103, 63, 118, 61, 50, 55, 50, 52, 48] :: nat list)"
  by (simp add: sampleUrlA_def)

lemma md5_pad_sampleUrlA: "md5_pad [104, 116, 116, 112, 115, 58, 47, 47, 101, 120, 97, 109, 112, 108, 101, 46, 99, 111, 109, 47, 117, 112, 108, 111, 97, 100, 115, 47, 112, 104, 111, 116, 111, 46, 106, 112, 103, 63, 118, 61, 50, 55, 50, 52, 48] = [104, 116, 116, 112, 115, 58, 47, 47, 101, 120, 97, 109, 112, 108, 101, 46, 99, 111, 109, 47, 117, 112, 108, 111, 97, 100, 115, 47, 112, 104, 111, 116, 111, 46, 106, 112, 103, 63, 118, 61, 50, 55, 50, 52, 48, 128, 0, 0, 0, 0, 0, 0, 0, 0, 0, 0, 104, 1, 0, 0, 0, 0, 0, 0]"
proof -
  have len: "length ([104, 116, 116, 112, 115, 58, 47, 47, 101, 120, 97, 109, 112, 108, 101, 46, 99, 111, 109, 47, 117, 112, 108, 111, 97, 100, 115, 47, 112, 104, 111, 116, 111, 46, 106, 112, 103, 63, 118, 61, 50, 55, 50, 52, 48] :: nat list) = 45"
    by simp
  show ?thesis
    unfolding md5_pad_def len by (simp add: le_bytes_def upt_eight replicate_num)
qed

lemma md5_words_sampleUrlA: "map le32 (chunks 4 [104, 116, 116, 112, 115, 58, 47, 47, 101, 120, 97, 109, 112, 108, 101, 46, 99, 111, 109, 47, 117, 112, 108, 111, 97, 100, 115, 47, 112, 104, 111, 116, 111, 46, 106, 112, 103, 63, 118, 61, 50, 55, 50, 52, 48, 128, 0, 0, 0, 0, 0, 0, 0, 0, 0, 0, 104, 1, 0, 0, 0, 0, 0, 0]) = [1886680168, 791624307, 1835104357, 778398832, 795701091, 1869377653, 796091489, 1953458288, 1886006895, 1031159655, 875706162, 32816, 0, 0, 360, 0]"
  by (simp add: le32_def)

lemma md5_rounds0_sampleUrlA:
  "foldl (md5_step [1886680168, 791624307, 1835104357, 778398832, 795701091, 1869377653, 796091489, 1953458288, 1886006895, 1031159655, 875706162, 32816, 0, 0, 360, 0]) (1732584193, 4023233417, 2562383102, 271733878) [0, 1, 2, 3, 4, 5, 6, 7, 8, 9, 10, 11, 12, 13, 14, 15] = (3139942782, 3888628817, 3322461640, 861172693)"
  by (simp add: md5_eval)

lemma md5_rounds1_sampleUrlA:
  "foldl (md5_step [1886680168, 791624307, 1835104357, 778398832, 795701091, 1869377653, 796091489, 1953458288, 1886006895, 1031159655, 875706162, 32816, 0, 0, 360, 0]) (3139942782, 3888628817, 3322461640, 861172693) [16, 17, 18, 19, 20, 21, 22, 23, 24, 25, 26, 27, 28, 29, 30, 31] = (278720532, 185885333, 2955345931, 798272196)"
  by (simp add: md5_eval)

lemma md5_rounds2_sampleUrlA:
  "foldl (md5_step [1886680168, 791624307, 1835104357, 778398832, 795701091, 1869377653, 796091489, 1953458288, 1886006895, 1031159655, 875706162, 32816, 0, 0, 360, 0]) (278720532, 185885333, 2955345931, 798272196) [32, 33, 34, 35, 36, 37, 38, 39, 40, 41, 42, 43, 44, 45, 46, 47] = (2496317441, 665909626, 1889977316, 401436879)"
  by (simp add: md5_eval)

lemma md5_rounds3_sampleUrlA:
  "foldl (md5_step [1886680168, 791624307, 1835104357, 778398832, 795701091, 1869377653, 796091489, 1953458288, 1886006895, 1031159655, 875706162, 32816, 0, 0, 360, 0]) (2496317441, 665909626, 1889977316, 401436879) [48, 49, 50, 51, 52, 53, 54, 55, 56, 57, 58, 59, 60, 61, 62, 63] = (3997599150, 2732991069, 3679559150, 2127079375)"
  by (simp add: md5_eval)

lemma md5_block_sampleUrlA:
  "md5_block md5_init [104, 116, 116, 112, 115, 58, 47, 47, 101, 120, 97, 109, 112, 108, 101, 46, 99, 111, 109, 47, 117, 112, 108, 111, 97, 100, 115, 47, 112, 104, 111, 116, 111, 46, 106, 112, 103, 63, 118, 61, 50, 55, 50, 52, 48, 128, 0, 0, 0, 0, 0, 0, 0, 0, 0, 0, 104, 1, 0, 0, 0, 0, 0, 0] = (1435216047, 2461257190, 1946974956, 2398813253)"
  unfolding md5_block_def md5_init_def md5_words_sampleUrlA upt_sixty_four
  by (simp only: foldl_append md5_rounds0_sampleUrlA md5_rounds1_sampleUrlA md5_rounds2_sampleUrlA md5_rounds3_sampleUrlA)
     (simp add: add32_def)

lemma md5_hex_sampleUrlA: "md5_hex sampleUrlA = ''afa88b55e6cdb392ec7a0c7445fcfa8e''"
proof -
  have ch: "chunks 64 [104, 116, 116, 112, 115, 58, 47, 47, 101, 120, 97, 109, 112, 108, 101, 46, 99, 111, 109, 47, 117, 112, 108, 111, 97, 100, 115, 47, 112, 104, 111, 116, 111, 46, 106, 112, 103, 63, 118, 61, 50, 55, 50, 52, 48, 128, 0, 0, 0, 0, 0, 0, 0, 0, 0, 0, 104, 1, 0, 0, 0, 0, 0, 0] = [[104, 116, 116, 112, 115, 58, 47, 47, 101, 120, 97, 109, 112, 108, 101, 46, 99, 111, 109, 47, 117, 112, 108, 111, 97, 100, 115, 47, 112, 104, 111, 116, 111, 46, 106, 112, 103, 63, 118, 61, 50, 55, 50, 52, 48, 128, 0, 0, 0, 0, 0, 0, 0, 0, 0, 0, 104, 1, 0, 0, 0, 0, 0, 0]]"
    by (simp del: One_nat_def)
  have "md5_digest [104, 116, 116, 112, 115, 58, 47, 47, 101, 120, 97, 109, 112, 108, 101, 46, 99, 111, 109, 47, 117, 112, 108, 111, 97, 100, 115, 47, 112, 104, 111, 116, 111, 46, 106, 112, 103, 63, 118, 61, 50, 55, 50, 52, 48] = (1435216047, 2461257190, 1946974956, 2398813253)"
    unfolding md5_digest_def md5_pad_sampleUrlA ch by (simp only: foldl.simps md5_block_sampleUrlA)
  then show ?thesis
    unfolding md5_hex_def md5_bytes_sampleUrlA
    by (simp add: hex_word_def hex_byte_def hex_digit_def le_bytes_def upt_four)
qed

lemma md5_bytes_sampleUrlB: "map of_char sampleUrlB = ([104, 116, 116, 112, 115, 58, 47, 47, 101, 120, 97, 109, 112, 108, 101, 46, 99, 111, 109, 47, 117, 112, 108, 111, 97, 100, 115, 47, 112, 104, 111, 116, 111, 46, 106, 112, 103, 63, 118, 61, 51, 56, 51, 55, 51] :: nat list)"
  by (simp add: sampleUrlB_def)

lemma md5_pad_sampleUrlB: "md5_pad [104, 116, 116, 112, 115, 58, 47, 47, 101, 120, 97, 109, 112, 108, 101, 46, 99, 111, 109, 47, 117, 112, 108, 111, 97, 100, 115, 47, 112, 104, 111, 116, 111, 46, 106, 112, 103, 63, 118, 61, 51, 56, 51, 55, 51] = [104, 116, 116, 112, 115, 58, 47, 47, 101, 120, 97, 109, 112, 108, 101, 46, 99, 111, 109, 47, 117, 112, 108, 111, 97, 100, 115, 47, 112, 104, 111, 116, 111, 46, 106, 112, 103, 63, 118, 61, 51, 56, 51, 55, 51, 128, 0, 0, 0, 0, 0, 0, 0, 0, 0, 0, 104, 1, 0, 0, 0, 0, 0, 0]"
proof -
  have len: "length ([104, 116, 116, 112, 115, 58, 47, 47, 101, 120, 97, 109, 112, 108, 101, 46, 99, 111, 109, 47, 117, 112, 108, 111, 97, 100, 115, 47, 112, 104, 111, 116, 111, 46, 106, 112, 103, 63, 118, 61, 51, 56, 51, 55, 51] :: nat list) = 45"
    by simp
  show ?thesis
    unfolding md5_pad_def len by (simp add: le_bytes_def upt_eight replicate_num)
qed

lemma md5_words_sampleUrlB: "map le32 (chunks 4 [104, 116, 116, 112, 115, 58, 47, 47, 101, 120, 97, 109, 112, 108, 101, 46, 99, 111, 109, 47, 117, 112, 108, 111, 97, 100, 115, 47, 112, 104, 111, 116, 111, 46, 106, 112, 103, 63, 118, 61, 51, 56, 51, 55, 51, 128, 0, 0, 0, 0, 0, 0, 0, 0, 0, 0, 104, 1, 0, 0, 0, 0, 0, 0]) = [1886680168, 791624307, 1835104357, 778398832, 795701091, 1869377653, 796091489, 1953458288, 1886006895, 1031159655, 926103603, 32819, 0, 0, 360, 0]"
  by (simp add: le32_def)

lemma md5_rounds0_sampleUrlB:
  "foldl (md5_step [1886680168, 791624307, 1835104357, 778398832, 795701091, 1869377653, 796091489, 1953458288, 1886006895, 1031159655, 926103603, 32819, 0, 0, 360, 0]) (1732584193, 4023233417, 2562383102, 271733878) [0, 1, 2, 3, 4, 5, 6, 7, 8, 9, 10, 11, 12, 13, 14, 15] = (1109491964, 2496965298, 1952609519, 2158894195)"
  by (simp add: md5_eval)

lemma md5_rounds1_sampleUrlB:
  "foldl (md5_step [1886680168, 791624307, 1835104357, 778398832, 795701091, 1869377653, 796091489, 1953458288, 1886006895, 1031159655, 926103603, 32819, 0, 0, 360, 0]) (1109491964, 2496965298, 1952609519, 2158894195) [16, 17, 18, 19, 20, 21, 22, 23, 24, 25, 26, 27, 28, 29, 30, 31] = (1305318510, 3623378345, 1977508109, 2759795236)"
  by (simp add: md5_eval)

lemma md5_rounds2_sampleUrlB:
  "foldl (md5_step [1886680168, 791624307, 1835104357, 778398832, 795701091, 1869377653, 796091489, 1953458288, 1886006895, 1031159655, 926103603, 32819, 0, 0, 360, 0]) (1305318510, 3623378345, 1977508109, 2759795236) [32, 33, 34, 35, 36, 37, 38, 39, 40, 41, 42, 43, 44, 45, 46, 47] = (402984515, 1088354358, 1046448855, 632054165)"
  by (simp add: md5_eval)

lemma md5_rounds3_sampleUrlB:
  "foldl (md5_step [1886680168, 791624307, 1835104357, 778398832, 795701091, 1869377653, 796091489, 1953458288, 1886006895, 1031159655, 926103603, 32819, 0, 0, 360, 0]) (402984515, 1088354358, 1046448855, 632054165) [48, 49, 50, 51, 52, 53, 54, 55, 56, 57, 58, 59, 60, 61, 62, 63] = (3997599150, 2445295771, 2165746625, 3540888375)"
  by (simp add: md5_eval)

lemma md5_block_sampleUrlB:
  "md5_block md5_init [104, 116, 116, 112, 115, 58, 47, 47, 101, 120, 97, 109, 112, 108, 101, 46, 99, 111, 109, 47, 117, 112, 108, 111, 97, 100, 115, 47, 112, 104, 111, 116, 111, 46, 106, 112, 103, 63, 118, 61, 51, 56, 51, 55, 51, 128, 0, 0, 0, 0, 0, 0, 0, 0, 0, 0, 104, 1, 0, 0, 0, 0, 0, 0] = (1435216047, 2173561892, 433162431, 3812622253)"
  unfolding md5_block_def md5_init_def md5_words_sampleUrlB upt_sixty_four
  by (simp only: foldl_append md5_rounds0_sampleUrlB md5_rounds1_sampleUrlB md5_rounds2_sampleUrlB md5_rounds3_sampleUrlB)
     (simp add: add32_def)

lemma md5_hex_sampleUrlB: "md5_hex sampleUrlB = ''afa88b5524ec8d81bf88d119adff3fe3''"
proof -
  have ch: "chunks 64 [104, 116, 116, 112, 115, 58, 47, 47, 101, 120, 97, 109, 112, 108, 101, 46, 99, 111, 109, 47, 117, 112, 108, 111, 97, 100, 115, 47, 112, 104, 111, 116, 111, 46, 106, 112, 103, 63, 118, 61, 51, 56, 51, 55, 51, 128, 0, 0, 0, 0, 0, 0, 0, 0, 0, 0, 104, 1, 0, 0, 0, 0, 0, 0] = [[104, 116, 116, 112, 115, 58, 47, 47, 101, 120, 97, 109, 112, 108, 101, 46, 99, 111, 109, 47, 117, 112, 108, 111, 97, 100, 115, 47, 112, 104, 111, 116, 111, 46, 106, 112, 103, 63, 118, 61, 51, 56, 51, 55, 51, 128, 0, 0, 0, 0, 0, 0, 0, 0, 0, 0, 104, 1, 0, 0, 0, 0, 0, 0]]"
    by (simp del: One_nat_def)
  have "md5_digest [104, 116, 116, 112, 115, 58, 47, 47, 101, 120, 97, 109, 112, 108, 101, 46, 99, 111, 109, 47, 117, 112, 108, 111, 97, 100, 115, 47, 112, 104, 111, 116, 111, 46, 106, 112, 103, 63, 118, 61, 51, 56, 51, 55, 51] = (1435216047, 2173561892, 433162431, 3812622253)"
    unfolding md5_digest_def md5_pad_sampleUrlB ch by (simp only: foldl.simps md5_block_sampleUrlB)
  then show ?thesis
    unfolding md5_hex_def md5_bytes_sampleUrlB
    by (simp add: hex_word_def hex_byte_def hex_digit_def le_bytes_def upt_four)
qed

lemma md5_bytes_notAUrl: "map of_char ''not a url'' = ([110, 111, 116, 32, 97, 32, 117, 114, 108] :: nat list)"
  by simp

lemma md5_pad_notAUrl: "md5_pad [110, 111, 116, 32, 97, 32, 117, 114, 108] = [110, 111, 116, 32, 97, 32, 117, 114, 108, 128, 0, 0, 0, 0, 0, 0, 0, 0, 0, 0, 0, 0, 0, 0, 0, 0, 0, 0, 0, 0, 0, 0, 0, 0, 0, 0, 0, 0, 0, 0, 0, 0, 0, 0, 0, 0, 0, 0, 0, 0, 0, 0, 0, 0, 0, 0, 72, 0, 0, 0, 0, 0, 0, 0]"
proof -
  have len: "length ([110, 111, 116, 32, 97, 32, 117, 114, 108] :: nat list) = 9"
    by simp
  show ?thesis
    unfolding md5_pad_def len by (simp add: le_bytes_def upt_eight replicate_num)
qed

lemma md5_words_notAUrl: "map le32 (chunks 4 [110, 111, 116, 32, 97, 32, 117, 114, 108, 128, 0, 0, 0, 0, 0, 0, 0, 0, 0, 0, 0, 0, 0, 0, 0, 0, 0, 0, 0, 0, 0, 0, 0, 0, 0, 0, 0, 0, 0, 0, 0, 0, 0, 0, 0, 0, 0, 0, 0, 0, 0, 0, 0, 0, 0, 0, 72, 0, 0, 0, 0, 0, 0, 0]) = [544501614, 1920278625, 32876, 0, 0, 0, 0, 0, 0, 0, 0, 0, 0, 0, 72, 0]"
  by (simp add: le32_def)

lemma md5_rounds0_notAUrl:
  "foldl (md5_step [544501614, 1920278625, 32876, 0, 0, 0, 0, 0, 0, 0, 0, 0, 0, 0, 72, 0]) (1732584193, 4023233417, 2562383102, 271733878) [0, 1, 2, 3, 4, 5, 6, 7, 8, 9, 10, 11, 12, 13, 14, 15] = (3054744718, 4016185009, 715618573, 2996232665)"
  by (simp add: md5_eval)

lemma md5_rounds1_notAUrl:
  "foldl (md5_step [544501614, 1920278625, 32876, 0, 0, 0, 0, 0, 0, 0, 0, 0, 0, 0, 72, 0]) (3054744718, 4016185009, 715618573, 2996232665) [16, 17, 18, 19, 20, 21, 22, 23, 24, 25, 26, 27, 28, 29, 30, 31] = (3990331711, 248256375, 2723694412, 3993698588)"
  by (simp add: md5_eval)

lemma md5_rounds2_notAUrl:
  "foldl (md5_step [544501614, 1920278625, 32876, 0, 0, 0, 0, 0, 0, 0, 0, 0, 0, 0, 72, 0]) (3990331711, 248256375, 2723694412, 3993698588) [32, 33, 34, 35, 36, 37, 38, 39, 40, 41, 42, 43, 44, 45, 46, 47] = (543703256, 3878640862, 3447038557, 3710063504)"
  by (simp add: md5_eval)

lemma md5_rounds3_notAUrl:
  "foldl (md5_step [544501614, 1920278625, 32876, 0, 0, 0, 0, 0, 0, 0, 0, 0, 0, 0, 72, 0]) (543703256, 3878640862, 3447038557, 3710063504) [48, 49, 50, 51, 52, 53, 54, 55, 56, 57, 58, 59, 60, 61, 62, 63] = (524738772, 268325900, 4051445999, 564506475)"
  by (simp add: md5_eval)

lemma md5_block_notAUrl:
  "md5_block md5_init [110, 111, 116, 32, 97, 32, 117, 114, 108, 128, 0, 0, 0, 0, 0, 0, 0, 0, 0, 0, 0, 0, 0, 0, 0, 0, 0, 0, 0, 0, 0, 0, 0, 0, 0, 0, 0, 0, 0, 0, 0, 0, 0, 0, 0, 0, 0, 0, 0, 0, 0, 0, 0, 0, 0, 0, 72, 0, 0, 0, 0, 0, 0, 0] = (2257322965, 4291559317, 2318861805, 836240353)"
  unfolding md5_block_def md5_init_def md5_words_notAUrl upt_sixty_four
  by (simp only: foldl_append md5_rounds0_notAUrl md5_rounds1_notAUrl md5_rounds2_notAUrl md5_rounds3_notAUrl)
     (simp add: add32_def)

lemma md5_hex_notAUrl: "md5_hex ''not a url'' = ''d5038c8695ffcbffed05378ae103d831''"
proof -
  have ch: "chunks 64 [110, 111, 116, 32, 97, 32, 117, 114, 108, 128, 0, 0, 0, 0, 0, 0, 0, 0, 0, 0, 0, 0, 0, 0, 0, 0, 0, 0, 0, 0, 0, 0, 0, 0, 0, 0, 0, 0, 0, 0, 0, 0, 0, 0, 0, 0, 0, 0, 0, 0, 0, 0, 0, 0, 0, 0, 72, 0, 0, 0, 0, 0, 0, 0] = [[110, 111, 116, 32, 97, 32, 117, 114, 108, 128, 0, 0, 0, 0, 0, 0, 0, 0, 0, 0, 0, 0, 0, 0, 0, 0, 0, 0, 0, 0, 0, 0, 0, 0, 0, 0, 0, 0, 0, 0, 0, 0, 0, 0, 0, 0, 0, 0, 0, 0, 0, 0, 0, 0, 0, 0, 72, 0, 0, 0, 0, 0, 0, 0]]"
    by (simp del: One_nat_def)
  have "md5_digest [110, 111, 116, 32, 97, 32, 117, 114, 108] = (2257322965, 4291559317, 2318861805, 836240353)"
    unfolding md5_digest_def md5_pad_notAUrl ch by (simp only: foldl.simps md5_block_notAUrl)
  then show ?thesis
    unfolding md5_hex_def md5_bytes_notAUrl
    by (simp add: hex_word_def hex_byte_def hex_digit_def le_bytes_def upt_four)
qed

lemma length_hex_word: "length (hex_word w) = 8"
  by (simp add: hex_word_def le_bytes_def upt_four hex_byte_def)

lemma length_md5_hex: "length (md5_hex s) = 32"
  by (cases "md5_digest (map of_char s)") (simp add: md5_hex_def length_hex_word)

lemma hex_digit_hex: "hex_digit n \<in> set ''0123456789abcdef''"
proof -
  have "n mod 16 < length ''0123456789abcdef''" by simp
  then show ?thesis unfolding hex_digit_def by (rule nth_mem)
qed

lemma hex_word_hex: "set (hex_word w) \<subseteq> set ''0123456789abcdef''"
  using hex_digit_hex by (auto simp: hex_word_def le_bytes_def upt_four hex_byte_def)

lemma md5_hex_hex: "set (md5_hex s) \<subseteq> set ''0123456789abcdef''"
  using hex_word_hex by (cases "md5_digest (map of_char s)") (auto simp: md5_hex_def)

lemma samplePathname_A: "samplePathname sampleUrlA = Some ''/uploads/photo.jpg''"
  by (simp add: samplePathname_def sampleUrlA_def isAlnum_def)

lemma samplePathname_B: "samplePathname sampleUrlB = Some ''/uploads/photo.jpg''"
  by (simp add: samplePathname_def sampleUrlB_def isAlnum_def)

lemma samplePathname_notAUrl: "samplePathname ''not a url'' = None"
  by (simp add: samplePathname_def isAlnum_def)

lemma sample_name_parts:
  "basename ''/uploads/photo.jpg'' = ''photo.jpg''"
  "extname ''photo.jpg'' = ''.jpg''"
  "replaceFirst ''.jpg'' [] ''photo.jpg'' = ''photo''"
  "safeNameOf ''photo'' = ''photo''"
  by (simp_all add: basename_def extname_def safeNameOf_def toLowerCase_def toLowerChar_def
      isSafeChar_def trimDashes_def Let_def suffix_to_prefix)

text \<open>
  C10.  \<open>generateFilename\<close> returns a non-empty filename for every string, whatever the
  URL parser does with it; when the string does not parse as a URL the result is
  \<open>image-\<close>, the first 12 characters of the MD5 hex digest of the string (12 hexadecimal
  digits) and \<open>.jpg\<close>.
\<close>

theorem generateFilename_fallback:
  "(pathnameOf url = None \<longrightarrow>
      generateFilename pathnameOf url = ''image-'' @ take 12 (md5_hex url) @ ''.jpg'')
   \<and> length (take 12 (md5_hex url)) = 12
   \<and> set (md5_hex url) \<subseteq> set ''0123456789abcdef''
   \<and> generateFilename pathnameOf url \<noteq> []"
proof -
  have "generateFilename pathnameOf url \<noteq> []"
    by (cases "pathnameOf url") (simp_all add: generateFilename_def Let_def)
  then show ?thesis
    using md5_hex_hex [of url] by (simp add: generateFilename_def length_md5_hex)
qed

theorem generateFilename_fallback_witness:
  "samplePathname ''not a url'' = None
   \<and> generateFilename samplePathname ''not a url'' = ''image-d5038c8695ff.jpg''"
  using generateFilename_fallback [of samplePathname "''not a url''"]
  by (simp add: samplePathname_notAUrl md5_hex_notAUrl)

text \<open>
  What the hash suffix does tell apart: for two URLs whose paths have the same basename
  the filenames are equal exactly when the first 8 hexadecimal digits of the MD5 digests
  of the two URLs are equal.
\<close>

lemma generateFilename_same_basename:
  assumes "pathnameOf u1 = Some p1" and "pathnameOf u2 = Some p2" and "basename p1 = basename p2"
  shows "generateFilename pathnameOf u1 = generateFilename pathnameOf u1
       \<and> (generateFilename pathnameOf u1 = generateFilename pathnameOf u2
            \<longleftrightarrow> take 8 (md5_hex u1) = take 8 (md5_hex u2))"
  using assms by (simp add: generateFilename_def Let_def)

lemma generateFilename_same_basename_sample:
  "samplePathname sampleUrlA = Some ''/uploads/photo.jpg''
   \<and> samplePathname sampleUrlB = Some ''/uploads/photo.jpg''
   \<and> basename ''/uploads/photo.jpg'' = basename ''/uploads/photo.jpg''
   \<and> (generateFilename samplePathname sampleUrlA = generateFilename samplePathname sampleUrlB
        \<longleftrightarrow> take 8 (md5_hex sampleUrlA) = take 8 (md5_hex sampleUrlB))"
  using generateFilename_same_basename [OF samplePathname_A samplePathname_B refl]
    samplePathname_A samplePathname_B
  by simp

text \<open>
  C5.  \<open>generateFilename\<close> is a function of the URL, so repeated calls agree; but it does
  not give every URL a filename of its own, as its documentation (\<open>Generate a unique
  filename for a URL\<close>, \<open>a short hash from the full URL to ensure uniqueness\<close>) and the claim
  say.  The two sample URLs are distinct, differ in their query only and share the path
  \<open>/uploads/photo.jpg\<close>; their MD5 digests begin with the same 8 digits, so both get the
  filename \<open>photo-afa88b55.jpg\<close>.
\<close>

theorem generateFilename_collision:
  "sampleUrlA \<noteq> sampleUrlB
   \<and> samplePathname sampleUrlA = Some ''/uploads/photo.jpg''
   \<and> samplePathname sampleUrlB = Some ''/uploads/photo.jpg''
   \<and> md5_hex sampleUrlA = ''afa88b55e6cdb392ec7a0c7445fcfa8e''
   \<and> md5_hex sampleUrlB = ''afa88b5524ec8d81bf88d119adff3fe3''
   \<and> generateFilename samplePathname sampleUrlA = ''photo-afa88b55.jpg''
   \<and> generateFilename samplePathname sampleUrlB = ''photo-afa88b55.jpg''"
proof -
  have ne: "sampleUrlA \<noteq> sampleUrlB"
    by (simp add: sampleUrlA_def sampleUrlB_def)
  have a: "generateFilename samplePathname sampleUrlA = ''photo-afa88b55.jpg''"
    by (simp add: generateFilename_def samplePathname_A sample_name_parts md5_hex_sampleUrlA)
  have b: "generateFilename samplePathname sampleUrlB = ''photo-afa88b55.jpg''"
    by (simp add: generateFilename_def samplePathname_B sample_name_parts md5_hex_sampleUrlB)
  show ?thesis
    using ne a b samplePathname_A samplePathname_B md5_hex_sampleUrlA md5_hex_sampleUrlB by simp
qed

end
